theory Spec2Isabelle
  imports Main "HOL-Library.Word"
begin

unbundle bit_operations_syntax

section \<open>Data model of the VxWorks keyboard handler\<close>

type_synonym quint8 = "8 word"
type_synonym quint16 = "16 word"
type_synonym quint32 = "32 word"

text \<open>
  Modelled from the spec: the struct \<open>QKeyboardMap::Mapping\<close> is declared in
  \<open>qvxkeyboardhandler_p.h\<close>, which is not among the sources.  The fields and their
  widths are those of the spec's MappingRecord (scancode u16, key code u32,
  modifier mask u8, flags, special u32, unicode u16); the field names are the ones
  \<open>processKeycode\<close> reads.
\<close>

record Mapping =
  keycode :: quint16
  qtcode :: quint32
  modifiers :: quint8
  flags :: quint8
  special :: quint32
  unicode :: quint16

text \<open>
  Modelled from the spec: \<open>QKeyboardMap::Composing\<close> (the spec's ComposeRecord),
  declared in the same header.
\<close>

record Composing =
  first :: quint16
  second :: quint16
  result :: quint16

text \<open>
  Modelled from the spec: the enumerations \<open>QKeyboardMap::Flags\<close>,
  \<open>QKeyboardMap::Modifiers\<close> and \<open>QKeyboardMap::System\<close> and the constant
  \<open>QKeyboardMap::FileMagic\<close> are declared in \<open>qvxkeyboardhandler_p.h\<close>, which is
  not among the sources.  The spec names them (IsLetter, IsModifier, IsSystem, IsDead,
  Shift, AltGr, Reboot, Zap, previous and next console, the console range and its mask,
  the file magic); the numbers are those of the Qt keyboard-map declaration.
\<close>

definition IsDead :: quint8 where "IsDead = 0x01"
definition IsLetter :: quint8 where "IsLetter = 0x02"
definition IsModifier :: quint8 where "IsModifier = 0x04"
definition IsSystem :: quint8 where "IsSystem = 0x08"

definition ModShift :: quint8 where "ModShift = 0x01"
definition ModAltGr :: quint8 where "ModAltGr = 0x02"
definition ModControl :: quint8 where "ModControl = 0x04"
definition ModAlt :: quint8 where "ModAlt = 0x08"
definition ModShiftL :: quint8 where "ModShiftL = 0x10"
definition ModShiftR :: quint8 where "ModShiftR = 0x20"
definition ModCtrlL :: quint8 where "ModCtrlL = 0x40"
definition ModCtrlR :: quint8 where "ModCtrlR = 0x80"

definition SystemConsoleFirst :: quint32 where "SystemConsoleFirst = 0x0100"
definition SystemConsoleMask :: quint32 where "SystemConsoleMask = 0x007f"
definition SystemConsoleLast :: quint32 where "SystemConsoleLast = 0x017f"
definition SystemConsolePrevious :: quint32 where "SystemConsolePrevious = 0x0180"
definition SystemConsoleNext :: quint32 where "SystemConsoleNext = 0x0181"
definition SystemReboot :: quint32 where "SystemReboot = 0x0200"
definition SystemZap :: quint32 where "SystemZap = 0x0300"

definition FileMagic :: quint32 where "FileMagic = 0x514d4150"

text \<open>
  Modelled from the spec: \<open>enum class QKeycodeAction\<close> is declared in the same
  header.  \<open>SwitchConsole n\<close> stands for the enumerator value
  \<open>SwitchConsoleFirst + n\<close>; \<open>NoAction\<close> is the enumerator \<open>None\<close>.
\<close>

datatype QKeycodeAction =
    NoAction
  | CapsLockOff | CapsLockOn
  | NumLockOff | NumLockOn
  | ScrollLockOff | ScrollLockOn
  | Reboot
  | PreviousConsole | NextConsole
  | SwitchConsole quint32

definition SwitchConsoleMask :: quint32 where "SwitchConsoleMask = 0x0000007f"

text \<open>
  Modelled from the spec: the key codes and keyboard modifiers of the \<open>Qt\<close> namespace
  (\<open>qnamespace.h\<close>, not among the sources), with the values of that enumeration.
\<close>

definition Key_Tab :: quint32 where "Key_Tab = 0x01000001"
definition Key_Backtab :: quint32 where "Key_Backtab = 0x01000002"
definition Key_Insert :: quint32 where "Key_Insert = 0x01000006"
definition Key_Delete :: quint32 where "Key_Delete = 0x01000007"
definition Key_Clear :: quint32 where "Key_Clear = 0x0100000b"
definition Key_Home :: quint32 where "Key_Home = 0x01000010"
definition Key_End :: quint32 where "Key_End = 0x01000011"
definition Key_Left :: quint32 where "Key_Left = 0x01000012"
definition Key_Up :: quint32 where "Key_Up = 0x01000013"
definition Key_Right :: quint32 where "Key_Right = 0x01000014"
definition Key_Down :: quint32 where "Key_Down = 0x01000015"
definition Key_PageUp :: quint32 where "Key_PageUp = 0x01000016"
definition Key_PageDown :: quint32 where "Key_PageDown = 0x01000017"
definition Key_CapsLock :: quint32 where "Key_CapsLock = 0x01000024"
definition Key_NumLock :: quint32 where "Key_NumLock = 0x01000025"
definition Key_ScrollLock :: quint32 where "Key_ScrollLock = 0x01000026"
definition Key_Multi_key :: quint32 where "Key_Multi_key = 0x01001120"
definition Key_unknown :: quint32 where "Key_unknown = 0x01ffffff"

definition NoModifier :: quint32 where "NoModifier = 0x00000000"
definition ShiftModifier :: quint32 where "ShiftModifier = 0x02000000"
definition ControlModifier :: quint32 where "ControlModifier = 0x04000000"
definition AltModifier :: quint32 where "AltModifier = 0x08000000"
definition MetaModifier :: quint32 where "MetaModifier = 0x10000000"
definition KeypadModifier :: quint32 where "KeypadModifier = 0x20000000"

text \<open>
  Modelled from the spec: \<open>QVxKeyboardHandler::toQtModifiers\<close> is defined in the
  header that is not among the sources.  It turns the live modifier byte into the
  modifier bits that are OR-ed into the reported key code (spec, step 4): any of the
  shift bits gives Shift, any of the control bits gives Control, Alt gives Alt.
\<close>

definition toQtModifiers :: "quint8 \<Rightarrow> quint32" where
  "toQtModifiers md =
     (let qtmod = NoModifier;
          qtmod = (if md AND (ModShift OR ModShiftL OR ModShiftR) \<noteq> 0
                   then qtmod OR ShiftModifier else qtmod);
          qtmod = (if md AND (ModControl OR ModCtrlL OR ModCtrlR) \<noteq> 0
                   then qtmod OR ControlModifier else qtmod);
          qtmod = (if md AND ModAlt \<noteq> 0 then qtmod OR AltModifier else qtmod)
      in qtmod)"

subsection \<open>The handler's members\<close>

text \<open>
  The members of \<open>QVxKeyboardHandler\<close> that the translation reads and writes.  The
  pair \<open>m_keymap\<close>, \<open>m_keymap_size\<close> is the list \<open>m_keymap\<close> (its length is the
  size), and likewise for the compose table.  \<open>m_locks\<close> is the array of three bytes
  (CapsLock, NumLock, ScrollLock).
\<close>

record handler =
  m_modifiers :: quint8
  m_locks :: "quint8 list"
  m_composing :: int
  m_dead_unicode :: quint16
  m_langLock :: quint8
  m_no_zap :: bool
  m_do_compose :: bool
  m_keymap :: "Mapping list"
  m_keycompose :: "Composing list"

subsection \<open>What reaches the outside\<close>

datatype QEvent_Type = KeyPress | KeyRelease

text \<open>The arguments of \<open>QWindowSystemInterface::handleExtendedKeyEvent\<close>.\<close>

record key_event =
  ev_type :: QEvent_Type
  ev_key :: quint32
  ev_modifiers :: quint32
  ev_nativeScanCode :: quint32
  ev_nativeVirtualKey :: quint32
  ev_nativeModifiers :: quint32
  ev_text :: "quint16 list"
  ev_autorep :: bool

datatype effect =
    SetKeyboardModifiers quint32
  | HandleExtendedKeyEvent key_event
  | AppQuit

text \<open>The key events among the effects of a call: what the windowing layer receives.\<close>

fun key_events :: "effect list \<Rightarrow> key_event list" where
  "key_events [] = []"
| "key_events (HandleExtendedKeyEvent e # es) = e # key_events es"
| "key_events (_ # es) = key_events es"

section \<open>processKeyEvent\<close>

definition processKeyEvent ::
  "handler \<Rightarrow> quint32 \<Rightarrow> quint16 \<Rightarrow> quint32 \<Rightarrow> quint32 \<Rightarrow> bool \<Rightarrow> bool \<Rightarrow> effect list" where
  "processKeyEvent s nativecode uc qc mods isPress autoRepeat =
     (if \<not> autoRepeat then [SetKeyboardModifiers (toQtModifiers (m_modifiers s))] else [])
     @ [HandleExtendedKeyEvent
          \<lparr> ev_type = (if isPress then KeyPress else KeyRelease),
            ev_key = qc,
            ev_modifiers = mods,
            ev_nativeScanCode = nativecode + 8,
            ev_nativeVirtualKey = 0,
            ev_nativeModifiers = mods,
            ev_text = (if uc \<noteq> 0xffff then [uc] else []),
            ev_autorep = autoRepeat \<rparr>]"

section \<open>processKeycode\<close>

subsection \<open>The scan of the table (lines 175 to 189)\<close>

text \<open>
  The loop runs over the table with the index \<open>i\<close> of the head of the remaining list;
  the two pointers \<open>map_plain\<close> and \<open>map_withmod\<close> are indices into the table, or
  \<open>None\<close> for the null pointer.  The loop stops as soon as both are set.
\<close>

fun scan_keymap ::
  "handler \<Rightarrow> quint16 \<Rightarrow> Mapping list \<Rightarrow> nat \<Rightarrow> nat option \<times> nat option
     \<Rightarrow> nat option \<times> nat option" where
  "scan_keymap s code [] i (map_plain, map_withmod) = (map_plain, map_withmod)"
| "scan_keymap s code (m # ms) i (map_plain, map_withmod) =
     (if map_plain \<noteq> None \<and> map_withmod \<noteq> None then (map_plain, map_withmod)
      else if keycode m = code then
        (let map_plain = (if modifiers m = 0 then Some i else map_plain);
             testmods = m_modifiers s;
             testmods = (if m_locks s ! 0 \<noteq> 0 \<and> flags m AND IsLetter \<noteq> 0
                         then testmods XOR ModShift else testmods);
             testmods = (if m_langLock s \<noteq> 0 then testmods XOR ModAltGr else testmods);
             map_withmod = (if modifiers m = testmods then Some i else map_withmod)
         in scan_keymap s code ms (Suc i) (map_plain, map_withmod))
      else scan_keymap s code ms (Suc i) (map_plain, map_withmod))"

definition lookup :: "handler \<Rightarrow> quint16 \<Rightarrow> nat option \<times> nat option" where
  "lookup s code = scan_keymap s code (m_keymap s) 0 (None, None)"

text \<open>Line 200: \<open>it = map_withmod ? map_withmod : map_plain\<close>.\<close>

definition selected :: "nat option \<times> nat option \<Rightarrow> nat option" where
  "selected pw = (case snd pw of Some j \<Rightarrow> Some j | None \<Rightarrow> fst pw)"

subsection \<open>The categories of the selected record (lines 212 to 279)\<close>

text \<open>The \<open>switch\<close> over \<open>it->special\<close> of a system record (lines 232 to 259).\<close>

definition system_action :: "quint32 \<Rightarrow> QKeycodeAction" where
  "system_action sp =
     (if sp = SystemReboot then Reboot
      else if sp = SystemZap then NoAction
      else if sp = SystemConsolePrevious then PreviousConsole
      else if sp = SystemConsoleNext then NextConsole
      else if SystemConsoleFirst \<le> sp \<and> sp \<le> SystemConsoleLast
        then SwitchConsole ((sp AND SystemConsoleMask) AND SwitchConsoleMask)
      else NoAction)"

text \<open>The \<open>switch\<close> over \<open>qtcode\<close> of a lock key (lines 224 to 229).\<close>

definition lock_action :: "quint32 \<Rightarrow> quint8 \<Rightarrow> QKeycodeAction" where
  "lock_action qc lock =
     (if qc = Key_CapsLock then (if lock \<noteq> 0 then CapsLockOn else CapsLockOff)
      else if qc = Key_NumLock then (if lock \<noteq> 0 then NumLockOn else NumLockOff)
      else if qc = Key_ScrollLock then (if lock \<noteq> 0 then ScrollLockOn else ScrollLockOff)
      else NoAction)"

text \<open>
  The chain of \<open>if\<close> and \<open>else if\<close> on the selected record \<open>it\<close>.  It gives the
  locals \<open>result\<close>, \<open>skip\<close> and \<open>qtcode\<close>, the request to quit the application (the
  only effect of this part) and the handler after the assignments to its members.
\<close>

definition dispatch ::
  "handler \<Rightarrow> Mapping \<Rightarrow> bool \<Rightarrow> bool
     \<Rightarrow> QKeycodeAction \<times> bool \<times> quint32 \<times> effect list \<times> handler" where
  "dispatch s it pressed first_press =
     (let uc = unicode it; qc = qtcode it in
      if flags it AND IsModifier \<noteq> 0 \<and> special it \<noteq> 0 then
        (NoAction, False, qc, [],
         if pressed then s\<lparr>m_modifiers := m_modifiers s OR ucast (special it)\<rparr>
         else s\<lparr>m_modifiers := m_modifiers s AND NOT (ucast (special it))\<rparr>)
      else if Key_CapsLock \<le> qc \<and> qc \<le> Key_ScrollLock then
        (if first_press then
           (let k = unat (qc - Key_CapsLock);
                lock = (m_locks s ! k) XOR 1
            in (lock_action qc lock, False, qc, [], s\<lparr>m_locks := (m_locks s)[k := lock]\<rparr>))
         else (NoAction, False, qc, [], s))
      else if flags it AND IsSystem \<noteq> 0 \<and> special it \<noteq> 0 \<and> first_press then
        (system_action (special it), True, qc,
         (if special it = SystemZap \<and> \<not> m_no_zap s then [AppQuit] else []), s)
      else if qc = Key_Multi_key \<and> m_do_compose s then
        (NoAction, True, qc, [], if first_press then s\<lparr>m_composing := 2\<rparr> else s)
      else if flags it AND IsDead \<noteq> 0 \<and> m_do_compose s then
        (if first_press \<and> m_composing s = 1 \<and> m_dead_unicode s = uc then
           (NoAction, False, Key_unknown, [], s\<lparr>m_composing := 0\<rparr>)
         else if first_press \<and> uc \<noteq> 0xffff then
           (NoAction, True, qc, [], s\<lparr>m_dead_unicode := uc, m_composing := 1\<rparr>)
         else (NoAction, True, qc, [], s))
      else (NoAction, False, qc, [], s))"

subsection \<open>Compose resolution (lines 293 to 338)\<close>

definition modmask :: quint32 where
  "modmask = ShiftModifier OR ControlModifier OR AltModifier OR MetaModifier OR KeypadModifier"

text \<open>
  Gives the locals \<open>skip\<close>, \<open>unicode\<close> and \<open>qtcode\<close> and the handler.  The two
  searches of the compose table stop at the first entry that fits, as \<open>find\<close> does.
\<close>

definition resolve_compose ::
  "handler \<Rightarrow> Mapping \<Rightarrow> bool \<Rightarrow> quint16 \<Rightarrow> quint32
     \<Rightarrow> bool \<times> quint16 \<times> quint32 \<times> handler" where
  "resolve_compose s it first_press uc qc =
     (if m_composing s = 2 \<and> first_press \<and> flags it AND IsModifier = 0 then
        (if uc \<noteq> 0xffff then
           (if find (\<lambda>c. first c = uc) (m_keycompose s) \<noteq> None then
              (True, 0xffff, qc, s\<lparr>m_dead_unicode := uc, m_composing := 1\<rparr>)
            else (False, uc, qc, s\<lparr>m_composing := 0\<rparr>))
         else (False, uc, qc, s\<lparr>m_composing := 0\<rparr>))
      else if m_composing s = 1 \<and> first_press \<and> flags it AND IsModifier = 0 then
        (let found =
               (if uc \<noteq> 0xffff
                then find (\<lambda>c. first c = m_dead_unicode s \<and> second c = uc) (m_keycompose s)
                else None);
             valid = (case found of Some c \<Rightarrow> result c \<noteq> 0xffff | None \<Rightarrow> False);
             uc = (case found of
                     Some c \<Rightarrow> if valid then result c else m_dead_unicode s
                   | None \<Rightarrow> m_dead_unicode s)
         in (False, uc, Key_unknown, s\<lparr>m_composing := 0\<rparr>))
      else (False, uc, qc, s))"

subsection \<open>Emission (lines 340 to 400)\<close>

text \<open>The inner \<open>switch\<close> of the keypad remap (lines 357 to 391).\<close>

definition keypad_remap :: "quint16 \<Rightarrow> quint32 \<Rightarrow> quint32" where
  "keypad_remap code qc =
     (if code = 71 then Key_Home
      else if code = 72 then Key_Up
      else if code = 73 then Key_PageUp
      else if code = 75 then Key_Left
      else if code = 76 then Key_Clear
      else if code = 77 then Key_Right
      else if code = 79 then Key_End
      else if code = 80 then Key_Down
      else if code = 81 then Key_PageDown
      else if code = 82 then Key_Insert
      else if code = 83 then Key_Delete
      else qc)"

definition emit_key ::
  "handler \<Rightarrow> quint16 \<Rightarrow> quint16 \<Rightarrow> quint32 \<Rightarrow> bool \<Rightarrow> bool \<Rightarrow> effect list" where
  "emit_key s code uc qc pressed autorepeat =
     (let qtmods = qc AND modmask;
          qc = qc AND NOT modmask;
          remap = (m_locks s ! 1 = 0 \<and> qtmods AND KeypadModifier \<noteq> 0 \<and>
                   71 \<le> code \<and> code \<le> 83 \<and> code \<noteq> 74 \<and> code \<noteq> 78);
          uc = (if remap then 0xffff else uc);
          qc = (if remap then keypad_remap code qc else qc);
          qc = (if qc = Key_Tab \<and> qtmods AND ShiftModifier = ShiftModifier
                then Key_Backtab else qc)
      in processKeyEvent s (ucast code) uc qc qtmods pressed autorepeat)"

subsection \<open>The whole function\<close>

text \<open>
  \<open>processKeycode\<close> returns its \<open>QKeycodeAction\<close>, the effects it had on the outside
  in their order, and the handler after the call.
\<close>

definition processKeycode ::
  "handler \<Rightarrow> quint16 \<Rightarrow> bool \<Rightarrow> bool \<Rightarrow> QKeycodeAction \<times> effect list \<times> handler" where
  "processKeycode s code pressed autorepeat =
     (let first_press = pressed \<and> \<not> autorepeat;
          (map_plain, map_withmod) = lookup s code;
          mods = m_modifiers s;
          mods = (if m_locks s ! 0 \<noteq> 0 \<and>
                     (case map_withmod of
                        Some j \<Rightarrow> flags (m_keymap s ! j) AND IsLetter \<noteq> 0
                      | None \<Rightarrow> False)
                  then mods XOR ModShift else mods)
      in case selected (map_plain, map_withmod) of
           None \<Rightarrow> (NoAction, [], s)
         | Some i \<Rightarrow>
             (let it = m_keymap s ! i;
                  (res, skip, qc, effs, s1) = dispatch s it pressed first_press
              in if skip then (res, effs, s1)
                 else
                   (let qc = (if (Some i = map_plain \<and> Some i \<noteq> map_withmod) \<or>
                                 (case map_withmod of
                                    Some j \<Rightarrow> qtcode (m_keymap s ! j) AND modmask = 0
                                  | None \<Rightarrow> False)
                              then qc OR toQtModifiers mods else qc);
                        (skip, uc, qc, s2) = resolve_compose s1 it first_press (unicode it) qc
                    in if skip then (res, effs, s2)
                       else (res, effs @ emit_key s2 code uc qc pressed autorepeat, s2))))"

section \<open>Keymaps: unloadKeymap, loadKeymap, switchLang, the constructor\<close>

datatype ByteOrder = BigEndian | LittleEndian

text \<open>
  The exception of a \<open>new[]\<close> that cannot get its memory.  Nothing in the file
  catches it: it leaves the function that allocates, and its callers.
\<close>

datatype exception = std_bad_alloc

text \<open>
  What the handler finds around it: the built-in tables of
  \<open>qvxkeyboard_defaultmap_p.h\<close> (not among the sources, so they are parameters),
  the files that can be opened with their contents, the byte order of the
  platform's data stream (the spec leaves it to the platform), and the heap:
  \<open>new_Mapping n\<close> says whether \<open>new QKeyboardMap::Mapping[n]\<close> returns, and
  \<open>new_Composing n m\<close> whether \<open>new QKeyboardMap::Composing[m]\<close> returns once the
  \<open>n\<close> mappings are allocated.
\<close>

record env =
  s_keymap_default :: "Mapping list"
  s_keycompose_default :: "Composing list"
  files :: "string \<Rightarrow> quint8 list option"
  byte_order :: ByteOrder
  new_Mapping :: "nat \<Rightarrow> bool"
  new_Composing :: "nat \<Rightarrow> nat \<Rightarrow> bool"

definition unloadKeymap :: "env \<Rightarrow> handler \<Rightarrow> handler" where
  "unloadKeymap e s =
     s\<lparr> m_keymap := s_keymap_default e,
        m_keycompose := s_keycompose_default e,
        m_modifiers := 0,
        m_locks := [0, 0, 0],
        m_composing := 0,
        m_dead_unicode := 0xffff,
        m_langLock := 0 \<rparr>"

definition switchLang :: "handler \<Rightarrow> handler" where
  "switchLang s = s\<lparr>m_langLock := m_langLock s XOR 1\<rparr>"

subsection \<open>The data stream\<close>

text \<open>
  Modelled from the spec: \<open>QDataStream\<close> is not among the sources.  The stream is the
  bytes that remain and a status; a read of \<open>n\<close> bytes takes them, and when fewer
  remain the status leaves \<open>Ok\<close> for good and the value read is 0 (the spec's
  truncated stream).  Each field is read in its declared width.
\<close>

datatype Status = Ok | ReadPastEnd

record QDataStream =
  dev :: "quint8 list"
  q_status :: Status
  byteOrder :: ByteOrder

definition readBlock :: "nat \<Rightarrow> QDataStream \<Rightarrow> quint8 list \<times> QDataStream" where
  "readBlock len ds =
     (let got = take len (dev ds);
          ds' = ds\<lparr>dev := drop len (dev ds)\<rparr>
      in (got, if length got \<noteq> len \<and> q_status ds' = Ok
               then ds'\<lparr>q_status := ReadPastEnd\<rparr> else ds'))"

fun be_val :: "quint8 list \<Rightarrow> quint32" where
  "be_val [] = 0"
| "be_val (b # bs) = push_bit (8 * length bs) (ucast b) OR be_val bs"

definition rd_bytes :: "nat \<Rightarrow> QDataStream \<Rightarrow> quint32 \<times> QDataStream" where
  "rd_bytes len ds =
     (let (got, ds') = readBlock len ds
      in (if length got \<noteq> len then 0
          else be_val (if byteOrder ds = BigEndian then got else rev got), ds'))"

definition rd_quint8 :: "QDataStream \<Rightarrow> quint8 \<times> QDataStream" where
  "rd_quint8 ds = (let (v, ds') = rd_bytes 1 ds in (ucast v, ds'))"

definition rd_quint16 :: "QDataStream \<Rightarrow> quint16 \<times> QDataStream" where
  "rd_quint16 ds = (let (v, ds') = rd_bytes 2 ds in (ucast v, ds'))"

definition rd_quint32 :: "QDataStream \<Rightarrow> quint32 \<times> QDataStream" where
  "rd_quint32 ds = rd_bytes 4 ds"

text \<open>
  Modelled from the spec: the stream operators of \<open>Mapping\<close> and \<open>Composing\<close> are
  declared in the header that is not among the sources; they read the fields in the
  order of the spec's MappingRecord and ComposeRecord.
\<close>

definition rd_Mapping :: "QDataStream \<Rightarrow> Mapping \<times> QDataStream" where
  "rd_Mapping ds =
     (let (k, ds) = rd_quint16 ds;
          (q, ds) = rd_quint32 ds;
          (m, ds) = rd_quint8 ds;
          (f, ds) = rd_quint8 ds;
          (sp, ds) = rd_quint32 ds;
          (u, ds) = rd_quint16 ds
      in (\<lparr>keycode = k, qtcode = q, modifiers = m, flags = f, special = sp, unicode = u\<rparr>, ds))"

definition rd_Composing :: "QDataStream \<Rightarrow> Composing \<times> QDataStream" where
  "rd_Composing ds =
     (let (a, ds) = rd_quint16 ds;
          (b, ds) = rd_quint16 ds;
          (r, ds) = rd_quint16 ds
      in (\<lparr>first = a, second = b, result = r\<rparr>, ds))"

text \<open>The two \<open>for\<close> loops of lines 461 to 464: \<open>n\<close> records, one after the other.\<close>

fun rd_array :: "(QDataStream \<Rightarrow> 'a \<times> QDataStream) \<Rightarrow> nat \<Rightarrow> QDataStream \<Rightarrow> 'a list \<times> QDataStream" where
  "rd_array rd 0 ds = ([], ds)"
| "rd_array rd (Suc n) ds =
     (let (x, ds) = rd ds;
          (xs, ds) = rd_array rd n ds
      in (x # xs, ds))"

subsection \<open>loadKeymap\<close>

text \<open>
  \<open>loadKeymap\<close> returns its \<open>bool\<close>, or an exception leaves it, and the handler after
  the call.  The two tables are allocated from the counts of the header (lines 458 and
  459) before any record is read; the compose table only when its count is not 0.
\<close>

definition loadKeymap :: "env \<Rightarrow> string \<Rightarrow> handler \<Rightarrow> (exception + bool) \<times> handler" where
  "loadKeymap e file s =
     (case files e file of
        None \<Rightarrow> (Inr False, s)
      | Some bytes \<Rightarrow>
          (let ds = \<lparr>dev = bytes, q_status = Ok, byteOrder = byte_order e\<rparr>;
               (qmap_magic, ds) = rd_quint32 ds;
               (qmap_version, ds) = rd_quint32 ds;
               (qmap_keymap_size, ds) = rd_quint32 ds;
               (qmap_keycompose_size, ds) = rd_quint32 ds
           in if q_status ds \<noteq> Ok \<or> qmap_magic \<noteq> FileMagic \<or> qmap_version \<noteq> 1 \<or>
                 qmap_keymap_size = 0
              then (Inr False, s)
              else if \<not> new_Mapping e (unat qmap_keymap_size)
              then (Inl std_bad_alloc, s)
              else if qmap_keycompose_size \<noteq> 0 \<and>
                      \<not> new_Composing e (unat qmap_keymap_size) (unat qmap_keycompose_size)
              then (Inl std_bad_alloc, s)
              else
                (let (qmap_keymap, ds) = rd_array rd_Mapping (unat qmap_keymap_size) ds;
                     (qmap_keycompose, ds) =
                        rd_array rd_Composing (unat qmap_keycompose_size) ds
                 in if q_status ds \<noteq> Ok then (Inr False, s)
                    else
                      (Inr True,
                       (unloadKeymap e s)
                         \<lparr> m_keymap := qmap_keymap,
                            m_keycompose := qmap_keycompose,
                            m_do_compose := True \<rparr>))))"

subsection \<open>The constructor\<close>

text \<open>The handler that is constructed, or the exception that leaves \<open>loadKeymap\<close>.\<close>

definition QVxKeyboardHandler :: "env \<Rightarrow> bool \<Rightarrow> bool \<Rightarrow> string \<Rightarrow> exception + handler" where
  "QVxKeyboardHandler e disableZap enableCompose keymapFile =
     (let s = \<lparr> m_modifiers = 0, m_locks = [0, 0, 0], m_composing = 0,
                m_dead_unicode = 0xffff, m_langLock = 0, m_no_zap = disableZap,
                m_do_compose = enableCompose, m_keymap = [], m_keycompose = [] \<rparr>
      in if keymapFile = [] then Inr (unloadKeymap e s)
         else (case loadKeymap e keymapFile s of
                 (Inl x, s') \<Rightarrow> Inl x
               | (Inr ok, s') \<Rightarrow> Inr (if \<not> ok then unloadKeymap e s' else s')))"

section \<open>Notions of the specification\<close>

subsection \<open>Lookup, in the spec's words\<close>

text \<open>
  The effective modifier test value of a candidate record, as the spec words it:
  the live modifiers, with Shift XOR-ed in if CapsLock is on and the candidate is
  flagged IsLetter, and the AltGr bit XOR-ed in if the language lock is on.
\<close>

definition effective_testmods :: "handler \<Rightarrow> Mapping \<Rightarrow> quint8" where
  "effective_testmods s m =
     (m_modifiers s
        XOR (if m_locks s ! 0 \<noteq> 0 \<and> flags m AND IsLetter \<noteq> 0 then ModShift else 0))
        XOR (if m_langLock s \<noteq> 0 then ModAltGr else 0)"

definition exact_match :: "handler \<Rightarrow> quint16 \<Rightarrow> Mapping \<Rightarrow> bool" where
  "exact_match s code m = (keycode m = code \<and> modifiers m = effective_testmods s m)"

definition plain_match :: "quint16 \<Rightarrow> Mapping \<Rightarrow> bool" where
  "plain_match code m = (keycode m = code \<and> modifiers m = 0)"

subsection \<open>Lock keys, in the spec's words\<close>

text \<open>
  A record that is dispatched as a lock key: its key code lies in the range from
  CapsLock to ScrollLock, and it is not a modifier record, which comes first in the
  chain.
\<close>

definition lock_key_record :: "Mapping \<Rightarrow> bool" where
  "lock_key_record it =
     (Key_CapsLock \<le> qtcode it \<and> qtcode it \<le> Key_ScrollLock \<and>
      (flags it AND IsModifier = 0 \<or> special it = 0))"

text \<open>The position of the lock in \<open>m_locks\<close>: line 221.\<close>

definition lock_index :: "Mapping \<Rightarrow> nat" where
  "lock_index it = unat (qtcode it - Key_CapsLock)"

text \<open>
  The lock flags as the spec types them: three flags, each 0 or 1.
\<close>

definition locks_ok :: "handler \<Rightarrow> bool" where
  "locks_ok s = (length (m_locks s) = 3 \<and> list_all (\<lambda>l. l = 0 \<or> l = 1) (m_locks s))"

text \<open>The spec's action SetLock, of the lock \<open>which\<close> and the polarity \<open>on\<close>.\<close>

definition set_lock :: "nat \<Rightarrow> bool \<Rightarrow> QKeycodeAction" where
  "set_lock which on =
     (if which = 0 then (if on then CapsLockOn else CapsLockOff)
      else if which = 1 then (if on then NumLockOn else NumLockOff)
      else (if on then ScrollLockOn else ScrollLockOff))"

subsection \<open>Keymap files, in the spec's words\<close>

text \<open>
  The \<open>k\<close>-th 32-bit field of the header (0: magic, 1: version, 2: mappingCount,
  3: composeCount), in the byte order of the stream.
\<close>

definition header_field :: "ByteOrder \<Rightarrow> quint8 list \<Rightarrow> nat \<Rightarrow> quint32" where
  "header_field bo bytes k =
     (let four = take 4 (drop (4 * k) bytes)
      in be_val (if bo = BigEndian then four else rev four))"

text \<open>
  The streams the loader rejects: a stream that ends inside the header, a bad magic,
  a version that is not 1, a mappingCount of 0, or a stream that ends before all the
  declared mapping records (14 bytes each) and compose records (6 bytes each).
\<close>

definition stream_rejected :: "ByteOrder \<Rightarrow> quint8 list \<Rightarrow> bool" where
  "stream_rejected bo bytes =
     (length bytes < 16 \<or>
      header_field bo bytes 0 \<noteq> FileMagic \<or>
      header_field bo bytes 1 \<noteq> 1 \<or>
      header_field bo bytes 2 = 0 \<or>
      length bytes < 16 + 14 * unat (header_field bo bytes 2)
                        + 6 * unat (header_field bo bytes 3))"

text \<open>A file that cannot be opened is rejected as well.\<close>

definition rejected :: "env \<Rightarrow> string \<Rightarrow> bool" where
  "rejected e file =
     (case files e file of
        None \<Rightarrow> True
      | Some bytes \<Rightarrow> stream_rejected (byte_order e) bytes)"

text \<open>The streams that are rejected for their header alone.\<close>

definition header_rejected :: "ByteOrder \<Rightarrow> quint8 list \<Rightarrow> bool" where
  "header_rejected bo bytes =
     (length bytes < 16 \<or>
      header_field bo bytes 0 \<noteq> FileMagic \<or>
      header_field bo bytes 1 \<noteq> 1 \<or>
      header_field bo bytes 2 = 0)"

text \<open>The heap has room for the two tables of the sizes that the header declares.\<close>

definition tables_allocated :: "env \<Rightarrow> quint8 list \<Rightarrow> bool" where
  "tables_allocated e bytes =
     (new_Mapping e (unat (header_field (byte_order e) bytes 2)) \<and>
      (header_field (byte_order e) bytes 3 = 0 \<or>
       new_Composing e (unat (header_field (byte_order e) bytes 2))
                       (unat (header_field (byte_order e) bytes 3))))"

text \<open>
  The file can be opened and its header is accepted, but the heap refuses a table of
  the declared size.
\<close>

definition allocation_refused :: "env \<Rightarrow> string \<Rightarrow> bool" where
  "allocation_refused e file =
     (case files e file of
        None \<Rightarrow> False
      | Some bytes \<Rightarrow> \<not> header_rejected (byte_order e) bytes \<and> \<not> tables_allocated e bytes)"

text \<open>The records of a file: what the stream operators read behind the header.\<close>

definition file_keymap :: "ByteOrder \<Rightarrow> quint8 list \<Rightarrow> Mapping list" where
  "file_keymap bo bytes =
     fst (rd_array rd_Mapping (unat (header_field bo bytes 2))
            \<lparr>dev = drop 16 bytes, q_status = Ok, byteOrder = bo\<rparr>)"

definition file_keycompose :: "ByteOrder \<Rightarrow> quint8 list \<Rightarrow> Composing list" where
  "file_keycompose bo bytes =
     fst (rd_array rd_Composing (unat (header_field bo bytes 3))
            \<lparr>dev = drop (16 + 14 * unat (header_field bo bytes 2)) bytes, q_status = Ok,
              byteOrder = bo\<rparr>)"

text \<open>
  A reader that takes exactly \<open>n\<close> bytes: the stream behind it is the rest, and its
  status is \<open>Ok\<close> when it was before and \<open>n\<close> bytes were there.
\<close>

definition consumes :: "nat \<Rightarrow> (QDataStream \<Rightarrow> 'a \<times> QDataStream) \<Rightarrow> bool" where
  "consumes n rd =
     (\<forall>ds. dev (snd (rd ds)) = drop n (dev ds) \<and>
           (q_status (snd (rd ds)) = Ok) = (q_status ds = Ok \<and> n \<le> length (dev ds)) \<and>
           byteOrder (snd (rd ds)) = byteOrder ds)"

subsection \<open>A run of key events\<close>

text \<open>
  One call of \<open>processKeycode\<close> for each event that \<open>readKeycode\<close> delivers
  (scancode, pressed, autorepeat), one after the other.
\<close>

fun process_events :: "handler \<Rightarrow> (quint16 \<times> bool \<times> bool) list \<Rightarrow> handler" where
  "process_events s [] = s"
| "process_events s ((code, pressed, autorepeat) # evs) =
     process_events (snd (snd (processKeycode s code pressed autorepeat))) evs"


subsection \<open>A small keymap to run the handler on\<close>

text \<open>
  Index 0 and 1: the letter A, plain and with Shift.  2: left Shift, a modifier.
  3: CapsLock.  4: NumLock.  5: Ctrl+Alt+Backspace, the system record of the zap.
  6: the dead acute accent.  7: the compose key.  8: the keypad's 7.  9: the letter E.
\<close>

definition example_keymap :: "Mapping list" where
  "example_keymap =
     [\<lparr>keycode = 30, qtcode = 0x41, modifiers = 0, flags = 0x02, special = 0, unicode = 0x61\<rparr>,
      \<lparr>keycode = 30, qtcode = 0x41, modifiers = 0x01, flags = 0x02, special = 0, unicode = 0x41\<rparr>,
      \<lparr>keycode = 42, qtcode = 0x01000020, modifiers = 0, flags = 0x04, special = 0x01,
        unicode = 0xffff\<rparr>,
      \<lparr>keycode = 58, qtcode = 0x01000024, modifiers = 0, flags = 0, special = 0,
        unicode = 0xffff\<rparr>,
      \<lparr>keycode = 69, qtcode = 0x01000025, modifiers = 0, flags = 0, special = 0,
        unicode = 0xffff\<rparr>,
      \<lparr>keycode = 14, qtcode = 0x01000003, modifiers = 0x0c, flags = 0x08, special = 0x0300,
        unicode = 0xffff\<rparr>,
      \<lparr>keycode = 40, qtcode = 0x01001251, modifiers = 0, flags = 0x01, special = 0,
        unicode = 0xb4\<rparr>,
      \<lparr>keycode = 100, qtcode = 0x01001120, modifiers = 0, flags = 0, special = 0,
        unicode = 0xffff\<rparr>,
      \<lparr>keycode = 71, qtcode = 0x20000037, modifiers = 0, flags = 0, special = 0,
        unicode = 0x37\<rparr>,
      \<lparr>keycode = 18, qtcode = 0x45, modifiers = 0, flags = 0x02, special = 0, unicode = 0x65\<rparr>]"

definition example_keycompose :: "Composing list" where
  "example_keycompose = [\<lparr>first = 0xb4, second = 0x65, result = 0xe9\<rparr>]"

text \<open>The handler with this keymap, compose enabled, nothing pressed and no lock on.\<close>

definition example_handler :: handler where
  "example_handler =
     \<lparr> m_modifiers = 0, m_locks = [0, 0, 0], m_composing = 0, m_dead_unicode = 0xffff,
       m_langLock = 0, m_no_zap = False, m_do_compose = True,
       m_keymap = example_keymap, m_keycompose = example_keycompose \<rparr>"

text \<open>
  A keymap whose records fall into two categories at once.  Index 0: a system record
  that is flagged as a modifier too.  1: CapsLock flagged as a modifier.  2: ScrollLock
  flagged as a system record.  3 and 4: a CapsLock on scancode 59 that is flagged as a
  letter, and the record of the same scancode with Shift.  5: a dead acute accent that
  is flagged as a modifier too.  6: Tab, with the keypad flag, on the keypad scancode 72.
\<close>

definition overlap_keymap :: "Mapping list" where
  "overlap_keymap =
     [\<lparr>keycode = 14, qtcode = 0x01000003, modifiers = 0, flags = 0x0c, special = 0x0300,
        unicode = 0xffff\<rparr>,
      \<lparr>keycode = 58, qtcode = 0x01000024, modifiers = 0, flags = 0x04, special = 0x01,
        unicode = 0xffff\<rparr>,
      \<lparr>keycode = 70, qtcode = 0x01000026, modifiers = 0, flags = 0x08, special = 0x0200,
        unicode = 0xffff\<rparr>,
      \<lparr>keycode = 59, qtcode = 0x01000024, modifiers = 0, flags = 0x02, special = 0,
        unicode = 0xffff\<rparr>,
      \<lparr>keycode = 59, qtcode = 0x41, modifiers = 0x01, flags = 0x02, special = 0,
        unicode = 0x41\<rparr>,
      \<lparr>keycode = 41, qtcode = 0x01001251, modifiers = 0, flags = 0x05, special = 0x02,
        unicode = 0xb4\<rparr>,
      \<lparr>keycode = 72, qtcode = 0x21000001, modifiers = 0, flags = 0, special = 0,
        unicode = 0x09\<rparr>]"

definition overlap_handler :: handler where
  "overlap_handler = example_handler\<lparr>m_keymap := overlap_keymap\<rparr>"

text \<open>
  Keymap files: \<open>a.qmap\<close> holds the letter A, the compose key and one compose pair;
  the others have a wrong version, a wrong magic, no mapping, and three bytes missing
  at the end; \<open>huge.qmap\<close> is a header alone that declares 0xffffffff mappings.  The
  heap of the example has room for tables of less than 0x1000000 records.
\<close>

definition example_qmap :: "quint8 list" where
  "example_qmap =
     [0x51, 0x4d, 0x41, 0x50,  0, 0, 0, 1,  0, 0, 0, 2,  0, 0, 0, 1,
      0, 30,  0, 0, 0, 0x41,  0,  0x02,  0, 0, 0, 0,  0, 0x61,
      0, 100,  0x01, 0, 0x11, 0x20,  0,  0,  0, 0, 0, 0,  0xff, 0xff,
      0, 0xb4,  0, 0x65,  0, 0xe9]"

definition version2_qmap :: "quint8 list" where
  "version2_qmap = [0x51, 0x4d, 0x41, 0x50,  0, 0, 0, 2,  0, 0, 0, 1,  0, 0, 0, 1]"

definition magic_qmap :: "quint8 list" where
  "magic_qmap = [0x51, 0x4d, 0x41, 0x51,  0, 0, 0, 1,  0, 0, 0, 1,  0, 0, 0, 1]"

definition empty_qmap :: "quint8 list" where
  "empty_qmap = [0x51, 0x4d, 0x41, 0x50,  0, 0, 0, 1,  0, 0, 0, 0,  0, 0, 0, 0]"

definition truncated_qmap :: "quint8 list" where
  "truncated_qmap = take 47 example_qmap"

definition huge_qmap :: "quint8 list" where
  "huge_qmap = [0x51, 0x4d, 0x41, 0x50,  0, 0, 0, 1,  0xff, 0xff, 0xff, 0xff,  0, 0, 0, 0]"

definition example_files :: "string \<Rightarrow> quint8 list option" where
  "example_files name =
     (if name = ''a.qmap'' then Some example_qmap
      else if name = ''version2.qmap'' then Some version2_qmap
      else if name = ''magic.qmap'' then Some magic_qmap
      else if name = ''empty.qmap'' then Some empty_qmap
      else if name = ''truncated.qmap'' then Some truncated_qmap
      else if name = ''huge.qmap'' then Some huge_qmap
      else None)"

definition example_env :: env where
  "example_env =
     \<lparr> s_keymap_default = example_keymap, s_keycompose_default = example_keycompose,
       files = example_files, byte_order = BigEndian,
       new_Mapping = (\<lambda>n. n < 0x1000000), new_Composing = (\<lambda>n m. m < 0x1000000) \<rparr>"


section \<open>Facts about the model\<close>

subsection \<open>The scan of the table\<close>

lemma scan_keymap_step:
  "scan_keymap s code (m # ms) i (p, w) =
     (if p \<noteq> None \<and> w \<noteq> None then (p, w)
      else scan_keymap s code ms (Suc i)
             (if plain_match code m then Some i else p,
              if exact_match s code m then Some i else w))"
  by (simp add: Let_def exact_match_def plain_match_def effective_testmods_def)

lemma scan_keymap_done:
  "p \<noteq> None \<Longrightarrow> w \<noteq> None \<Longrightarrow> scan_keymap s code ms i (p, w) = (p, w)"
  by (cases ms) auto

lemma scan_keymap_withmod_None:
  "scan_keymap s code ms i (p, w) = (p', w') \<Longrightarrow>
     (w' = None) = (w = None \<and> (\<forall>m\<in>set ms. \<not> exact_match s code m))"
proof (induction ms arbitrary: i p w)
  case Nil
  then show ?case by simp
next
  case (Cons m ms)
  show ?case
  proof (cases "p \<noteq> None \<and> w \<noteq> None")
    case True
    with Cons.prems show ?thesis by (auto simp: scan_keymap_done)
  next
    case False
    with Cons.prems have
      "scan_keymap s code ms (Suc i)
         (if plain_match code m then Some i else p,
          if exact_match s code m then Some i else w) = (p', w')"
      by (simp only: scan_keymap_step if_False)
    from Cons.IH [OF this] show ?thesis by auto
  qed
qed

lemma scan_keymap_plain_None:
  "scan_keymap s code ms i (p, w) = (p', w') \<Longrightarrow>
     (p' = None) = (p = None \<and> (\<forall>m\<in>set ms. \<not> plain_match code m))"
proof (induction ms arbitrary: i p w)
  case Nil
  then show ?case by simp
next
  case (Cons m ms)
  show ?case
  proof (cases "p \<noteq> None \<and> w \<noteq> None")
    case True
    with Cons.prems show ?thesis by (auto simp: scan_keymap_done)
  next
    case False
    with Cons.prems have
      "scan_keymap s code ms (Suc i)
         (if plain_match code m then Some i else p,
          if exact_match s code m then Some i else w) = (p', w')"
      by (simp only: scan_keymap_step if_False)
    from Cons.IH [OF this] show ?thesis by auto
  qed
qed

lemma scan_keymap_withmod_Some:
  "scan_keymap s code ms i (p, w) = (p', w') \<Longrightarrow> w' = Some j \<Longrightarrow>
     w = Some j \<or> (i \<le> j \<and> j < i + length ms \<and> exact_match s code (ms ! (j - i)))"
proof (induction ms arbitrary: i p w)
  case Nil
  then show ?case by simp
next
  case (Cons m ms)
  show ?case
  proof (cases "p \<noteq> None \<and> w \<noteq> None")
    case True
    with Cons.prems show ?thesis by (auto simp: scan_keymap_done)
  next
    case False
    with Cons.prems have
      "scan_keymap s code ms (Suc i)
         (if plain_match code m then Some i else p,
          if exact_match s code m then Some i else w) = (p', w')"
      by (simp only: scan_keymap_step if_False)
    from Cons.IH [OF this Cons.prems(2)]
    show ?thesis by (auto split: if_splits simp: nth_Cons' Suc_diff_le)
  qed
qed

lemma scan_keymap_plain_Some:
  "scan_keymap s code ms i (p, w) = (p', w') \<Longrightarrow> p' = Some j \<Longrightarrow>
     p = Some j \<or> (i \<le> j \<and> j < i + length ms \<and> plain_match code (ms ! (j - i)))"
proof (induction ms arbitrary: i p w)
  case Nil
  then show ?case by simp
next
  case (Cons m ms)
  show ?case
  proof (cases "p \<noteq> None \<and> w \<noteq> None")
    case True
    with Cons.prems show ?thesis by (auto simp: scan_keymap_done)
  next
    case False
    with Cons.prems have
      "scan_keymap s code ms (Suc i)
         (if plain_match code m then Some i else p,
          if exact_match s code m then Some i else w) = (p', w')"
      by (simp only: scan_keymap_step if_False)
    from Cons.IH [OF this Cons.prems(2)]
    show ?thesis by (auto split: if_splits simp: nth_Cons' Suc_diff_le)
  qed
qed

lemma lookup_None_iff:
  "lookup s code = (p, w) \<Longrightarrow>
     (w = None) = (\<forall>m\<in>set (m_keymap s). \<not> exact_match s code m) \<and>
     (p = None) = (\<forall>m\<in>set (m_keymap s). \<not> plain_match code m)"
  unfolding lookup_def
  using scan_keymap_withmod_None [of s code "m_keymap s" 0 None None p w]
        scan_keymap_plain_None [of s code "m_keymap s" 0 None None p w]
  by simp

lemma lookup_withmod_Some:
  "lookup s code = (p, w) \<Longrightarrow> w = Some j \<Longrightarrow>
     j < length (m_keymap s) \<and> exact_match s code (m_keymap s ! j)"
  unfolding lookup_def
  using scan_keymap_withmod_Some [of s code "m_keymap s" 0 None None p w j]
  by simp

lemma lookup_plain_Some:
  "lookup s code = (p, w) \<Longrightarrow> p = Some j \<Longrightarrow>
     j < length (m_keymap s) \<and> plain_match code (m_keymap s ! j)"
  unfolding lookup_def
  using scan_keymap_plain_Some [of s code "m_keymap s" 0 None None p w j]
  by simp

subsection \<open>Key codes and modifier bits\<close>

lemmas qt_consts = Key_Tab_def Key_Backtab_def Key_Insert_def Key_Delete_def Key_Clear_def
  Key_Home_def Key_End_def Key_Left_def Key_Up_def Key_Right_def Key_Down_def Key_PageUp_def
  Key_PageDown_def Key_CapsLock_def Key_NumLock_def Key_ScrollLock_def Key_Multi_key_def
  Key_unknown_def NoModifier_def ShiftModifier_def ControlModifier_def AltModifier_def
  MetaModifier_def KeypadModifier_def modmask_def

lemma toQtModifiers_cases:
  "toQtModifiers md \<in> {0, 0x02000000, 0x04000000, 0x06000000, 0x08000000, 0x0a000000,
      0x0c000000, 0x0e000000}"
  by (simp add: toQtModifiers_def Let_def qt_consts)

lemma toQtModifiers_in_modmask: "toQtModifiers md AND NOT modmask = 0"
  using toQtModifiers_cases [of md] by (auto simp: modmask_def qt_consts)

lemma toQtModifiers_no_keypad: "toQtModifiers md AND KeypadModifier = 0"
  using toQtModifiers_cases [of md] by (auto simp: qt_consts)

lemma or_toQtModifiers_key: "(qc OR toQtModifiers md) AND NOT modmask = qc AND NOT modmask"
  by (simp add: bit.conj_disj_distrib2 toQtModifiers_in_modmask)

lemma or_toQtModifiers_keypad:
  "((qc OR toQtModifiers md) AND modmask) AND KeypadModifier = qc AND KeypadModifier"
proof -
  have "modmask AND KeypadModifier = KeypadModifier" by (simp add: qt_consts)
  then have "((qc OR toQtModifiers md) AND modmask) AND KeypadModifier
      = (qc OR toQtModifiers md) AND KeypadModifier"
    by (simp add: and.assoc)
  also have "\<dots> = qc AND KeypadModifier"
    by (simp add: bit.conj_disj_distrib2 toQtModifiers_no_keypad)
  finally show ?thesis .
qed

lemma and_modmask_keypad: "(qc AND modmask) AND KeypadModifier = qc AND KeypadModifier"
proof -
  have "modmask AND KeypadModifier = KeypadModifier" by (simp add: qt_consts)
  then show ?thesis by (simp add: and.assoc)
qed

lemma lock_range_cases:
  "Key_CapsLock \<le> qc \<Longrightarrow> qc \<le> Key_ScrollLock \<Longrightarrow>
     qc = Key_CapsLock \<or> qc = Key_NumLock \<or> qc = Key_ScrollLock"
  unfolding qt_consts by (simp add: word_le_nat_alt word_unat_eq_iff) arith

lemma lock_range_no_keypad:
  "Key_CapsLock \<le> qc \<Longrightarrow> qc \<le> Key_ScrollLock \<Longrightarrow> qc AND KeypadModifier = 0"
  using lock_range_cases [of qc] by (auto simp: qt_consts)

lemma Key_unknown_no_keypad: "Key_unknown AND KeypadModifier = 0"
  by (simp add: qt_consts)

lemma lock_index_cases:
  assumes "lock_key_record it"
  shows "(qtcode it = Key_CapsLock \<and> lock_index it = 0) \<or>
         (qtcode it = Key_NumLock \<and> lock_index it = 1) \<or>
         (qtcode it = Key_ScrollLock \<and> lock_index it = 2)"
  using assms lock_range_cases [of "qtcode it"]
  by (auto simp add: lock_key_record_def lock_index_def qt_consts)

subsection \<open>The stages of processKeycode\<close>

lemma key_events_processKeyEvent:
  "key_events (processKeyEvent s n uc qc mods isPress ar) =
     [\<lparr> ev_type = (if isPress then KeyPress else KeyRelease), ev_key = qc, ev_modifiers = mods,
        ev_nativeScanCode = n + 8, ev_nativeVirtualKey = 0, ev_nativeModifiers = mods,
        ev_text = (if uc \<noteq> 0xffff then [uc] else []), ev_autorep = ar \<rparr>]"
  by (simp add: processKeyEvent_def)

lemma key_events_emit_key:
  "\<exists>ev. key_events (emit_key s code uc qc pressed ar) = [ev] \<and>
        ev_type ev = (if pressed then KeyPress else KeyRelease) \<and>
        ev_nativeScanCode ev = ucast code + 8 \<and> ev_autorep ev = ar \<and>
        ev_modifiers ev = qc AND modmask"
  by (simp add: emit_key_def Let_def key_events_processKeyEvent)

lemma key_events_emit_key_plain:
  assumes "m_locks s ! 1 \<noteq> 0 \<or> qc AND KeypadModifier = 0"
    and "\<not> (qc AND NOT modmask = Key_Tab \<and>
            (qc AND modmask) AND ShiftModifier = ShiftModifier)"
  shows "key_events (emit_key s code uc qc pressed ar) =
     [\<lparr> ev_type = (if pressed then KeyPress else KeyRelease), ev_key = qc AND NOT modmask,
        ev_modifiers = qc AND modmask, ev_nativeScanCode = ucast code + 8,
        ev_nativeVirtualKey = 0, ev_nativeModifiers = qc AND modmask,
        ev_text = (if uc \<noteq> 0xffff then [uc] else []), ev_autorep = ar \<rparr>]"
  using assms
  by (auto simp add: emit_key_def Let_def key_events_processKeyEvent and_modmask_keypad)

lemma key_events_emit_key_remap:
  assumes "m_locks s ! 1 = 0" and "qc AND KeypadModifier \<noteq> 0"
    and "code \<in> {71, 72, 73, 75, 76, 77, 79, 80, 81, 82, 83}"
  shows "\<exists>ev. key_events (emit_key s code uc qc pressed ar) = [ev] \<and> ev_text ev = [] \<and>
     ev_key ev =
       (if code = 71 then Key_Home else if code = 72 then Key_Up
        else if code = 73 then Key_PageUp else if code = 75 then Key_Left
        else if code = 76 then Key_Clear else if code = 77 then Key_Right
        else if code = 79 then Key_End else if code = 80 then Key_Down
        else if code = 81 then Key_PageDown else if code = 82 then Key_Insert
        else Key_Delete)"
proof -
  have nt: "Key_Home \<noteq> Key_Tab" "Key_Up \<noteq> Key_Tab" "Key_PageUp \<noteq> Key_Tab"
    "Key_Left \<noteq> Key_Tab" "Key_Clear \<noteq> Key_Tab" "Key_Right \<noteq> Key_Tab" "Key_End \<noteq> Key_Tab"
    "Key_Down \<noteq> Key_Tab" "Key_PageDown \<noteq> Key_Tab" "Key_Insert \<noteq> Key_Tab"
    "Key_Delete \<noteq> Key_Tab"
    by (simp_all add: qt_consts)
  from assms(3) have rng: "71 \<le> code \<and> code \<le> 83 \<and> code \<noteq> 74 \<and> code \<noteq> 78"
    by auto
  from assms(3) show ?thesis
    using assms(1,2) rng nt
    by (auto simp add: emit_key_def Let_def key_events_processKeyEvent and_modmask_keypad
          keypad_remap_def)
qed

lemma processKeycode_selected:
  assumes "selected (lookup s code) = Some i"
  shows "processKeycode s code pressed autorepeat =
     (let first_press = pressed \<and> \<not> autorepeat;
          map_plain = fst (lookup s code);
          map_withmod = snd (lookup s code);
          mods = (if m_locks s ! 0 \<noteq> 0 \<and>
                     (case map_withmod of
                        Some j \<Rightarrow> flags (m_keymap s ! j) AND IsLetter \<noteq> 0
                      | None \<Rightarrow> False)
                  then m_modifiers s XOR ModShift else m_modifiers s);
          it = m_keymap s ! i;
          d = dispatch s it pressed first_press;
          res = fst d; skip = fst (snd d); qc = fst (snd (snd d));
          effs = fst (snd (snd (snd d))); s1 = snd (snd (snd (snd d)))
      in if skip then (res, effs, s1)
         else
           (let qc = (if (Some i = map_plain \<and> Some i \<noteq> map_withmod) \<or>
                         (case map_withmod of
                            Some j \<Rightarrow> qtcode (m_keymap s ! j) AND modmask = 0
                          | None \<Rightarrow> False)
                      then qc OR toQtModifiers mods else qc);
                r = resolve_compose s1 it first_press (unicode it) qc
            in if fst r then (res, effs, snd (snd (snd r)))
               else (res, effs @ emit_key (snd (snd (snd r))) code (fst (snd r)) (fst (snd (snd r)))
                                   pressed autorepeat, snd (snd (snd r)))))"
  using assms
  by (cases "lookup s code") (simp add: processKeycode_def Let_def split: prod.splits)

lemma processKeycode_not_selected:
  "selected (lookup s code) = None \<Longrightarrow> processKeycode s code pressed autorepeat = (NoAction, [], s)"
  by (cases "lookup s code") (simp add: processKeycode_def)

lemma dispatch_facts:
  assumes "dispatch s it p fp = (res, skip, qc, effs, s1)"
  shows "key_events effs = []"
    and "qc = qtcode it \<or> qc = Key_unknown"
    and "m_locks s1 = m_locks s \<or> qc AND KeypadModifier = 0"
    and "m_locks s1 ! 1 = m_locks s ! 1 \<or> qc AND KeypadModifier = 0"
    and "m_composing s = 0 \<Longrightarrow> \<not> skip \<Longrightarrow> m_composing s1 = 0 \<and> qc = qtcode it"
    and "m_keymap s1 = m_keymap s"
  using assms lock_range_no_keypad [of "qtcode it"]
  by (auto simp add: dispatch_def Let_def Key_unknown_no_keypad split: if_splits)

lemma resolve_compose_facts:
  assumes "resolve_compose s1 it fp uc qc = (skip, uc', qc', s2)"
  shows "m_locks s2 = m_locks s1"
    and "qc' = qc \<or> qc' = Key_unknown"
    and "m_composing s1 = 0 \<Longrightarrow> \<not> skip \<and> uc' = uc \<and> qc' = qc \<and> s2 = s1"
    and "m_keymap s2 = m_keymap s1"
  using assms
  by (auto simp add: resolve_compose_def Let_def split: if_splits)

text \<open>What reaches emission: nothing, or one call of \<open>emit_key\<close>.\<close>

lemma processKeycode_emission:
  assumes sel: "selected (lookup s code) = Some i"
    and pk: "processKeycode s code pressed autorepeat = (res, effs, s2)"
  shows "key_events effs = [] \<or>
     (\<exists>uc qc. key_events effs = key_events (emit_key s2 code uc qc pressed autorepeat) \<and>
        (m_locks s2 ! 1 = m_locks s ! 1 \<or> qc AND KeypadModifier = 0) \<and>
        (m_composing s = 0 \<longrightarrow>
           uc = unicode (m_keymap s ! i) \<and>
           qc AND NOT modmask = qtcode (m_keymap s ! i) AND NOT modmask))"
proof -
  let ?it = "m_keymap s ! i"
  let ?fp = "pressed \<and> \<not> autorepeat"
  obtain r1 skip1 qc1 effs1 s1 where
    d: "dispatch s ?it pressed ?fp = (r1, skip1, qc1, effs1, s1)"
    by (cases "dispatch s ?it pressed ?fp") auto
  note df = dispatch_facts [OF d]
  show ?thesis
  proof (cases skip1)
    case True
    with pk d df(1) show ?thesis
      by (simp add: processKeycode_selected [OF sel] Let_def)
  next
    case False
    define qc2 where "qc2 =
      (if (Some i = fst (lookup s code) \<and> Some i \<noteq> snd (lookup s code)) \<or>
          (case snd (lookup s code) of
             Some j \<Rightarrow> qtcode (m_keymap s ! j) AND modmask = 0
           | None \<Rightarrow> False)
       then qc1 OR toQtModifiers
              (if m_locks s ! 0 \<noteq> 0 \<and>
                  (case snd (lookup s code) of
                     Some j \<Rightarrow> flags (m_keymap s ! j) AND IsLetter \<noteq> 0
                   | None \<Rightarrow> False)
               then m_modifiers s XOR ModShift else m_modifiers s)
       else qc1)"
    obtain skip3 uc3 qc3 s3 where
      r: "resolve_compose s1 ?it ?fp (unicode ?it) qc2 = (skip3, uc3, qc3, s3)"
      by (cases "resolve_compose s1 ?it ?fp (unicode ?it) qc2") auto
    note rf = resolve_compose_facts [OF r]
    have q2k: "qc2 AND KeypadModifier = qc1 AND KeypadModifier"
      by (simp add: qc2_def bit.conj_disj_distrib2 toQtModifiers_no_keypad)
    have q2m: "qc2 AND NOT modmask = qc1 AND NOT modmask"
      by (simp add: qc2_def or_toQtModifiers_key)
    from pk d r False have
      res: "effs = (if skip3 then effs1 else effs1 @ emit_key s3 code uc3 qc3 pressed autorepeat)"
        "s2 = s3"
      by (simp_all add: processKeycode_selected [OF sel] Let_def qc2_def split: if_splits)
    show ?thesis
    proof (cases skip3)
      case True
      with res df(1) show ?thesis by simp
    next
      case nskip: False
      have ke: "key_events (xs @ ys) = key_events ys" if "key_events xs = []" for xs ys
        using that by (induction xs rule: key_events.induct) auto
      from res nskip df(1)
      have a: "key_events effs = key_events (emit_key s2 code uc3 qc3 pressed autorepeat)"
        by (simp add: ke)
      have b: "m_locks s2 ! 1 = m_locks s ! 1 \<or> qc3 AND KeypadModifier = 0"
        using rf(1,2) df(4) res(2) q2k by (auto simp: Key_unknown_no_keypad)
      have c: "uc3 = unicode ?it \<and> qc3 AND NOT modmask = qtcode ?it AND NOT modmask"
        if "m_composing s = 0"
        using df(5) [OF that False] rf(3) q2m by auto
      from a b c show ?thesis by blast
    qed
  qed
qed

lemma processKeycode_lock_first_press:
  assumes sel: "selected (lookup s code) = Some i"
    and lk: "lock_key_record (m_keymap s ! i)"
    and pk: "processKeycode s code True False = (a, effs, s')"
  shows "a = lock_action (qtcode (m_keymap s ! i))
               (m_locks s ! lock_index (m_keymap s ! i) XOR 1)"
    and "m_locks s' = (m_locks s)[lock_index (m_keymap s ! i) :=
               m_locks s ! lock_index (m_keymap s ! i) XOR 1]"
    and "m_keymap s' = m_keymap s"
proof -
  let ?it = "m_keymap s ! i"
  let ?l = "m_locks s ! lock_index ?it XOR 1"
  let ?s1 = "s\<lparr>m_locks := (m_locks s)[lock_index ?it := ?l]\<rparr>"
  have d: "dispatch s ?it True True = (lock_action (qtcode ?it) ?l, False, qtcode ?it, [], ?s1)"
    using lk by (auto simp add: dispatch_def Let_def lock_key_record_def lock_index_def)
  have "a = lock_action (qtcode ?it) ?l \<and> m_locks s' = m_locks ?s1 \<and> m_keymap s' = m_keymap ?s1"
  proof -
    obtain qc where "\<exists>skip uc qc' s2.
         resolve_compose ?s1 ?it True (unicode ?it) qc = (skip, uc, qc', s2) \<and>
         a = lock_action (qtcode ?it) ?l \<and> s' = s2"
      using pk
      by (cases "resolve_compose ?s1 ?it True (unicode ?it) (qtcode ?it)";
          cases "resolve_compose ?s1 ?it True (unicode ?it) (qtcode ?it OR toQtModifiers (m_modifiers s))";
          cases "resolve_compose ?s1 ?it True (unicode ?it) (qtcode ?it OR toQtModifiers (m_modifiers s XOR ModShift))")
         (auto simp add: processKeycode_selected [OF sel] Let_def d split: if_splits)
    then obtain skip uc qc' where
      r: "resolve_compose ?s1 ?it True (unicode ?it) qc = (skip, uc, qc', s')"
      and a: "a = lock_action (qtcode ?it) ?l"
      by auto
    from resolve_compose_facts(1,4) [OF r] a show ?thesis by simp
  qed
  then show "a = lock_action (qtcode ?it) ?l"
    and "m_locks s' = (m_locks s)[lock_index ?it := ?l]"
    and "m_keymap s' = m_keymap s"
    by simp_all
qed

lemma processKeycode_lock_autorepeat:
  assumes sel: "selected (lookup s code) = Some i"
    and lk: "lock_key_record (m_keymap s ! i)"
  shows "\<exists>effs. processKeycode s code True True = (NoAction, effs, s)"
proof -
  let ?it = "m_keymap s ! i"
  have d: "dispatch s ?it True False = (NoAction, False, qtcode ?it, [], s)"
    using lk by (auto simp add: dispatch_def Let_def lock_key_record_def)
  have r: "resolve_compose s ?it False uc qc = (False, uc, qc, s)" for uc qc
    by (simp add: resolve_compose_def)
  show ?thesis
    by (simp add: processKeycode_selected [OF sel] Let_def d r)
qed






subsection \<open>The data stream and loadKeymap\<close>

lemma consumes_readBlock: "consumes n (readBlock n)"
  by (auto simp add: consumes_def readBlock_def Let_def)

lemma consumes_rd_bytes: "consumes n (rd_bytes n)"
  using consumes_readBlock [of n]
  by (simp add: consumes_def rd_bytes_def split: prod.splits) (metis snd_conv)

lemma consumes_rd_quint32: "consumes 4 rd_quint32"
  using consumes_rd_bytes [of 4] by (simp add: consumes_def rd_quint32_def)

lemma consumes_rd_quint16: "consumes 2 rd_quint16"
  using consumes_rd_bytes [of 2]
  by (simp add: consumes_def rd_quint16_def split: prod.splits) (metis snd_conv)

lemma consumes_rd_quint8: "consumes 1 rd_quint8"
  using consumes_rd_bytes [of 1]
  by (simp add: consumes_def rd_quint8_def split: prod.splits) (metis snd_conv)

lemma consumesD:
  assumes "consumes n rd" and "rd ds = (x, ds')"
  shows "dev ds' = drop n (dev ds)"
    and "(q_status ds' = Ok) = (q_status ds = Ok \<and> n \<le> length (dev ds))"
    and "byteOrder ds' = byteOrder ds"
  using assms unfolding consumes_def by (metis snd_conv)+

lemma consumesI:
  assumes "\<And>ds x ds'. rd ds = (x, ds') \<Longrightarrow>
     dev ds' = drop n (dev ds) \<and>
     (q_status ds' = Ok) = (q_status ds = Ok \<and> n \<le> length (dev ds)) \<and>
     byteOrder ds' = byteOrder ds"
  shows "consumes n rd"
  unfolding consumes_def
proof
  fix ds
  obtain x ds' where r: "rd ds = (x, ds')" by (cases "rd ds")
  from assms [OF r] r show "dev (snd (rd ds)) = drop n (dev ds) \<and>
           (q_status (snd (rd ds)) = Ok) = (q_status ds = Ok \<and> n \<le> length (dev ds)) \<and>
           byteOrder (snd (rd ds)) = byteOrder ds"
    by simp
qed

lemma consumes_rd_Mapping: "consumes 14 rd_Mapping"
proof (rule consumesI)
  fix ds x ds'
  assume r: "rd_Mapping ds = (x, ds')"
  obtain k d1 where 1: "rd_quint16 ds = (k, d1)" by (cases "rd_quint16 ds")
  obtain q d2 where 2: "rd_quint32 d1 = (q, d2)" by (cases "rd_quint32 d1")
  obtain m d3 where 3: "rd_quint8 d2 = (m, d3)" by (cases "rd_quint8 d2")
  obtain f d4 where 4: "rd_quint8 d3 = (f, d4)" by (cases "rd_quint8 d3")
  obtain sp d5 where 5: "rd_quint32 d4 = (sp, d5)" by (cases "rd_quint32 d4")
  obtain u d6 where 6: "rd_quint16 d5 = (u, d6)" by (cases "rd_quint16 d5")
  from r 1 2 3 4 5 6 have e: "ds' = d6" by (simp add: rd_Mapping_def)
  note c1 = consumesD [OF consumes_rd_quint16 1]
  note c2 = consumesD [OF consumes_rd_quint32 2]
  note c3 = consumesD [OF consumes_rd_quint8 3]
  note c4 = consumesD [OF consumes_rd_quint8 4]
  note c5 = consumesD [OF consumes_rd_quint32 5]
  note c6 = consumesD [OF consumes_rd_quint16 6]
  have "dev d6 = drop 14 (dev ds)"
    by (simp add: c1(1) c2(1) c3(1) c4(1) c5(1) c6(1))
  moreover have "(q_status d6 = Ok) = (q_status ds = Ok \<and> 14 \<le> length (dev ds))"
    unfolding c6(2) c5(2) c4(2) c3(2) c2(2) c1(2) c1(1) c2(1) c3(1) c4(1) c5(1)
    by (auto simp add: length_drop)
  moreover have "byteOrder d6 = byteOrder ds"
    by (simp add: c1(3) c2(3) c3(3) c4(3) c5(3) c6(3))
  ultimately show "dev ds' = drop 14 (dev ds) \<and>
     (q_status ds' = Ok) = (q_status ds = Ok \<and> 14 \<le> length (dev ds)) \<and>
     byteOrder ds' = byteOrder ds"
    using e by simp
qed

lemma consumes_rd_Composing: "consumes 6 rd_Composing"
proof (rule consumesI)
  fix ds x ds'
  assume r: "rd_Composing ds = (x, ds')"
  obtain a d1 where 1: "rd_quint16 ds = (a, d1)" by (cases "rd_quint16 ds")
  obtain b d2 where 2: "rd_quint16 d1 = (b, d2)" by (cases "rd_quint16 d1")
  obtain c d3 where 3: "rd_quint16 d2 = (c, d3)" by (cases "rd_quint16 d2")
  from r 1 2 3 have e: "ds' = d3" by (simp add: rd_Composing_def)
  note c1 = consumesD [OF consumes_rd_quint16 1]
  note c2 = consumesD [OF consumes_rd_quint16 2]
  note c3 = consumesD [OF consumes_rd_quint16 3]
  have "dev d3 = drop 6 (dev ds)"
    by (simp add: c1(1) c2(1) c3(1))
  moreover have "(q_status d3 = Ok) = (q_status ds = Ok \<and> 6 \<le> length (dev ds))"
    unfolding c3(2) c2(2) c1(2) c1(1) c2(1)
    by (auto simp add: length_drop)
  moreover have "byteOrder d3 = byteOrder ds"
    by (simp add: c1(3) c2(3) c3(3))
  ultimately show "dev ds' = drop 6 (dev ds) \<and>
     (q_status ds' = Ok) = (q_status ds = Ok \<and> 6 \<le> length (dev ds)) \<and>
     byteOrder ds' = byteOrder ds"
    using e by simp
qed

lemma consumes_rd_array:
  assumes "consumes k rd"
  shows "consumes (n * k) (rd_array rd n)"
proof (induction n)
  case 0
  show ?case by (simp add: consumes_def)
next
  case (Suc n)
  show ?case
  proof (rule consumesI)
    fix ds xs ds'
    assume r: "rd_array rd (Suc n) ds = (xs, ds')"
    obtain x d1 where 1: "rd ds = (x, d1)" by (cases "rd ds")
    obtain ys d2 where 2: "rd_array rd n d1 = (ys, d2)" by (cases "rd_array rd n d1")
    from r 1 2 have e: "ds' = d2" by simp
    note c1 = consumesD [OF assms 1]
    note c2 = consumesD [OF Suc.IH 2]
    have "dev d2 = drop (Suc n * k) (dev ds)"
      by (simp add: c1(1) c2(1) add.commute)
    moreover have "(q_status d2 = Ok) = (q_status ds = Ok \<and> Suc n * k \<le> length (dev ds))"
      unfolding c2(2) c1(2) c1(1) by (auto simp add: length_drop)
    moreover have "byteOrder d2 = byteOrder ds"
      by (simp add: c1(3) c2(3))
    ultimately show "dev ds' = drop (Suc n * k) (dev ds) \<and>
       (q_status ds' = Ok) = (q_status ds = Ok \<and> Suc n * k \<le> length (dev ds)) \<and>
       byteOrder ds' = byteOrder ds"
      using e by simp
  qed
qed

lemma length_rd_array: "length (fst (rd_array rd n ds)) = n"
proof (induction n arbitrary: ds)
  case 0
  show ?case by simp
next
  case (Suc n)
  obtain x d1 where 1: "rd ds = (x, d1)" by (cases "rd ds")
  obtain ys d2 where 2: "rd_array rd n d1 = (ys, d2)" by (cases "rd_array rd n d1")
  from Suc.IH [of d1] 2 have "length ys = n" by simp
  with 1 2 show ?case by simp
qed

lemma rd_quint32_value:
  assumes "rd_quint32 ds = (v, ds')" and "4 \<le> length (dev ds)"
  shows "v = be_val (if byteOrder ds = BigEndian then take 4 (dev ds) else rev (take 4 (dev ds)))"
  using assms by (auto simp add: rd_quint32_def rd_bytes_def readBlock_def Let_def)

lemma QDataStream_eqI:
  "dev a = dev b \<Longrightarrow> q_status a = q_status b \<Longrightarrow> byteOrder a = byteOrder b \<Longrightarrow>
     a = (b :: QDataStream)"
  by simp

text \<open>What loadKeymap does with a file that can be opened.\<close>

lemma loadKeymap_Some:
  assumes f: "files e file = Some bytes"
  shows "loadKeymap e file s =
     (if header_rejected (byte_order e) bytes then (Inr False, s)
      else if \<not> tables_allocated e bytes then (Inl std_bad_alloc, s)
      else if stream_rejected (byte_order e) bytes then (Inr False, s)
      else (Inr True,
            (unloadKeymap e s)
              \<lparr> m_keymap := file_keymap (byte_order e) bytes,
                 m_keycompose := file_keycompose (byte_order e) bytes,
                 m_do_compose := True \<rparr>))"
proof -
  let ?bo = "byte_order e"
  let ?d0 = "\<lparr>dev = bytes, q_status = Ok, byteOrder = ?bo\<rparr>"
  obtain mg d1 where 1: "rd_quint32 ?d0 = (mg, d1)" by (cases "rd_quint32 ?d0")
  obtain vs d2 where 2: "rd_quint32 d1 = (vs, d2)" by (cases "rd_quint32 d1")
  obtain mc d3 where 3: "rd_quint32 d2 = (mc, d3)" by (cases "rd_quint32 d2")
  obtain cc d4 where 4: "rd_quint32 d3 = (cc, d4)" by (cases "rd_quint32 d3")
  note c1 = consumesD [OF consumes_rd_quint32 1]
  note c2 = consumesD [OF consumes_rd_quint32 2]
  note c3 = consumesD [OF consumes_rd_quint32 3]
  note c4 = consumesD [OF consumes_rd_quint32 4]
  have dv: "dev d1 = drop 4 bytes" "dev d2 = drop 8 bytes" "dev d3 = drop 12 bytes"
    "dev d4 = drop 16 bytes"
    by (simp_all add: c1(1) c2(1) c3(1) c4(1))
  have bo: "byteOrder d1 = ?bo" "byteOrder d2 = ?bo" "byteOrder d3 = ?bo" "byteOrder d4 = ?bo"
    by (simp_all add: c1(3) c2(3) c3(3) c4(3))
  have st: "(q_status d4 = Ok) = (16 \<le> length bytes)"
    unfolding c4(2) c3(2) c2(2) c1(2) dv by auto
  show ?thesis
  proof (cases "16 \<le> length bytes")
    case False
    with st have "q_status d4 \<noteq> Ok" by simp
    moreover from False have "header_rejected ?bo bytes" by (simp add: header_rejected_def)
    ultimately show ?thesis
      by (simp add: loadKeymap_def f 1 2 3 4)
  next
    case True
    with st have ok4: "q_status d4 = Ok" by simp
    from True have hv: "mg = header_field ?bo bytes 0" "vs = header_field ?bo bytes 1"
      "mc = header_field ?bo bytes 2" "cc = header_field ?bo bytes 3"
      using rd_quint32_value [OF 1] rd_quint32_value [OF 2] rd_quint32_value [OF 3]
        rd_quint32_value [OF 4]
      by (simp_all add: header_field_def dv bo)
    have d4: "d4 = \<lparr>dev = drop 16 bytes, q_status = Ok, byteOrder = ?bo\<rparr>"
      by (rule QDataStream_eqI) (simp_all add: dv bo ok4)
    obtain km d5 where 5: "rd_array rd_Mapping (unat mc) d4 = (km, d5)"
      by (cases "rd_array rd_Mapping (unat mc) d4")
    obtain kc d6 where 6: "rd_array rd_Composing (unat cc) d5 = (kc, d6)"
      by (cases "rd_array rd_Composing (unat cc) d5")
    note c5 = consumesD [OF consumes_rd_array [OF consumes_rd_Mapping] 5]
    note c6 = consumesD [OF consumes_rd_array [OF consumes_rd_Composing] 6]
    have st6: "(q_status d6 = Ok) =
       (16 + 14 * unat mc + 6 * unat cc \<le> length bytes)"
      unfolding c6(2) c5(2) c5(1) using True by (auto simp add: ok4 dv mult.commute)
    have km: "km = file_keymap ?bo bytes"
      using 5 by (simp add: file_keymap_def hv [symmetric] d4 [symmetric])
    have kc: "q_status d6 = Ok \<Longrightarrow> kc = file_keycompose ?bo bytes"
    proof -
      assume "q_status d6 = Ok"
      with c6(2) have "q_status d5 = Ok" by simp
      have "d5 = \<lparr>dev = drop (16 + 14 * unat mc) bytes, q_status = Ok, byteOrder = ?bo\<rparr>"
        by (rule QDataStream_eqI)
           (simp_all add: c5(1) c5(3) dv bo \<open>q_status d5 = Ok\<close> mult.commute add.commute)
      with 6 show ?thesis by (simp add: file_keycompose_def hv [symmetric])
    qed
    have hr: "header_rejected ?bo bytes = (mg \<noteq> FileMagic \<or> vs \<noteq> 1 \<or> mc = 0)"
      using True unfolding hv header_rejected_def by auto
    have ta: "tables_allocated e bytes =
       (new_Mapping e (unat mc) \<and> (cc = 0 \<or> new_Composing e (unat mc) (unat cc)))"
      unfolding hv tables_allocated_def by simp
    have rj: "stream_rejected ?bo bytes =
       (mg \<noteq> FileMagic \<or> vs \<noteq> 1 \<or> mc = 0 \<or> q_status d6 \<noteq> Ok)"
      using True st6 unfolding hv stream_rejected_def by auto
    show ?thesis
      using kc by (auto simp add: loadKeymap_def f 1 2 3 4 5 6 ok4 hr ta rj km)
  qed
qed

lemma header_rejected_stream_rejected:
  "header_rejected bo bytes \<Longrightarrow> stream_rejected bo bytes"
  by (auto simp add: header_rejected_def stream_rejected_def)

text \<open>What a call of loadKeymap does, whatever the handler is.\<close>

lemma loadKeymap_outcome:
  "fst (loadKeymap e file s) =
     (if allocation_refused e file then Inl std_bad_alloc
      else if rejected e file then Inr False else Inr True)"
proof (cases "files e file")
  case None
  then show ?thesis by (simp add: loadKeymap_def rejected_def allocation_refused_def)
next
  case (Some bytes)
  then show ?thesis
    using header_rejected_stream_rejected [of "byte_order e" bytes]
    by (auto simp add: loadKeymap_Some [OF Some] rejected_def allocation_refused_def)
qed


text \<open>Unloading the keymap does not clear the flag either.\<close>

lemma unloadKeymap_keeps_do_compose: "m_do_compose (unloadKeymap e s) = m_do_compose s"
  by (simp add: unloadKeymap_def)

subsection \<open>The lock flags stay 0 or 1\<close>

text \<open>
  The constructor and \<open>unloadKeymap\<close> clear the three flags, and no key event and
  no load takes them out of 0 and 1.
\<close>

lemma toggled_lock_ok:
  assumes "list_all (\<lambda>l. l = 0 \<or> l = 1) xs" and "k < length xs"
  shows "list_all (\<lambda>l. l = 0 \<or> l = 1) (xs[k := xs ! k XOR (1 :: quint8)])"
proof -
  from assms have "xs ! k = 0 \<or> xs ! k = 1" by (simp add: list_all_length)
  then have "xs ! k XOR 1 = 0 \<or> xs ! k XOR 1 = 1" by auto
  with assms(1) show ?thesis
    by (auto simp add: list_all_iff dest: set_update_subset_insert [THEN subsetD])
qed

lemma dispatch_locks_ok:
  assumes d: "dispatch s it p fp = (res, skip, qc, effs, s1)" and ok: "locks_ok s"
  shows "locks_ok s1"
proof (cases "lock_key_record it \<and> fp")
  case True
  then have lk: "lock_key_record it" and fp: fp by simp_all
  from lock_index_cases [OF lk] ok have k: "lock_index it < length (m_locks s)"
    by (auto simp add: locks_ok_def)
  from d lk fp have "m_locks s1 = (m_locks s)[lock_index it := m_locks s ! lock_index it XOR 1]"
    by (auto simp add: dispatch_def Let_def lock_key_record_def lock_index_def split: if_splits)
  with ok toggled_lock_ok [OF _ k] show ?thesis by (simp add: locks_ok_def)
next
  case False
  with d have "m_locks s1 = m_locks s"
    by (auto simp add: dispatch_def Let_def lock_key_record_def split: if_splits)
  with ok show ?thesis by (simp add: locks_ok_def)
qed

lemma processKeycode_locks_ok:
  assumes ok: "locks_ok s"
  shows "locks_ok (snd (snd (processKeycode s code pressed autorepeat)))"
proof (cases "selected (lookup s code)")
  case None
  with ok show ?thesis by (simp add: processKeycode_not_selected)
next
  case (Some i)
  let ?it = "m_keymap s ! i"
  let ?fp = "pressed \<and> \<not> autorepeat"
  obtain r1 skip1 qc1 effs1 s1 where
    d: "dispatch s ?it pressed ?fp = (r1, skip1, qc1, effs1, s1)"
    by (cases "dispatch s ?it pressed ?fp") auto
  have r: "m_locks (snd (snd (snd (resolve_compose s1 ?it ?fp uc qc)))) = m_locks s1" for uc qc
    using resolve_compose_facts(1) [of s1 ?it ?fp uc qc]
    by (cases "resolve_compose s1 ?it ?fp uc qc") auto
  from dispatch_locks_ok [OF d ok] show ?thesis
    by (simp add: processKeycode_selected [OF Some] Let_def d locks_ok_def r)
qed

lemma process_events_locks_ok: "locks_ok s \<Longrightarrow> locks_ok (process_events s evs)"
  by (induction s evs rule: process_events.induct) (simp_all add: processKeycode_locks_ok)

lemma unloadKeymap_locks_ok: "locks_ok (unloadKeymap e s)"
  by (simp add: unloadKeymap_def locks_ok_def)

lemma loadKeymap_locks_ok: "locks_ok s \<Longrightarrow> locks_ok (snd (loadKeymap e file s))"
proof (cases "files e file")
  case None
  assume "locks_ok s"
  with None show ?thesis by (simp add: loadKeymap_def)
next
  case (Some bytes)
  assume "locks_ok s"
  then show ?thesis
    by (simp add: loadKeymap_Some [OF Some] locks_ok_def unloadKeymap_def)
qed

lemma QVxKeyboardHandler_locks_ok:
  assumes "QVxKeyboardHandler e disableZap enableCompose keymapFile = Inr h"
  shows "locks_ok h"
proof -
  let ?s = "\<lparr> m_modifiers = 0, m_locks = [0, 0, 0], m_composing = 0,
                m_dead_unicode = 0xffff, m_langLock = 0, m_no_zap = disableZap,
                m_do_compose = enableCompose, m_keymap = [], m_keycompose = [] \<rparr>"
  have "locks_ok ?s" by (simp add: locks_ok_def)
  from loadKeymap_locks_ok [OF this, of e keymapFile] assms show ?thesis
    by (cases "loadKeymap e keymapFile ?s")
       (auto simp add: QVxKeyboardHandler_def Let_def unloadKeymap_locks_ok
          split: if_splits sum.splits)
qed

subsection \<open>The example files\<close>

lemma example_env_fields:
  "files example_env = example_files"
  "byte_order example_env = BigEndian"
  "s_keymap_default example_env = example_keymap"
  "s_keycompose_default example_env = example_keycompose"
  "new_Mapping example_env n = (n < 0x1000000)"
  "new_Composing example_env n m = (m < 0x1000000)"
  by (simp_all add: example_env_def)

lemma example_files_simps:
  "example_files ''a.qmap'' = Some example_qmap"
  "example_files ''version2.qmap'' = Some version2_qmap"
  "example_files ''magic.qmap'' = Some magic_qmap"
  "example_files ''empty.qmap'' = Some empty_qmap"
  "example_files ''truncated.qmap'' = Some truncated_qmap"
  "example_files ''huge.qmap'' = Some huge_qmap"
  by (simp_all add: example_files_def)

lemma example_headers:
  "header_rejected BigEndian version2_qmap"
  "header_rejected BigEndian magic_qmap"
  "header_rejected BigEndian empty_qmap"
  "\<not> header_rejected BigEndian truncated_qmap"
  "stream_rejected BigEndian truncated_qmap"
  "header_field BigEndian truncated_qmap 2 = 2"
  "header_field BigEndian truncated_qmap 3 = 1"
  "\<not> header_rejected BigEndian example_qmap"
  "\<not> stream_rejected BigEndian example_qmap"
  "header_field BigEndian example_qmap 2 = 2"
  "header_field BigEndian example_qmap 3 = 1"
  "\<not> header_rejected BigEndian huge_qmap"
  "header_field BigEndian huge_qmap 2 = 0xffffffff"
  "header_field BigEndian huge_qmap 3 = 0"
  "length huge_qmap = 16"
  by code_simp+

lemma example_rejected:
  "rejected example_env ''version2.qmap''"
  "rejected example_env ''magic.qmap''"
  "rejected example_env ''empty.qmap''"
  "rejected example_env ''truncated.qmap''"
  "rejected example_env ''huge.qmap''"
  "\<not> rejected example_env ''a.qmap''"
  using example_headers(1-3) [THEN header_rejected_stream_rejected]
  by (simp_all add: rejected_def example_env_fields example_files_simps example_headers)
     (simp add: stream_rejected_def example_headers)

lemma example_allocation:
  "\<not> allocation_refused example_env ''version2.qmap''"
  "\<not> allocation_refused example_env ''magic.qmap''"
  "\<not> allocation_refused example_env ''empty.qmap''"
  "\<not> allocation_refused example_env ''truncated.qmap''"
  "allocation_refused example_env ''huge.qmap''"
  "\<not> allocation_refused example_env ''a.qmap''"
  by (simp_all add: allocation_refused_def tables_allocated_def example_env_fields
        example_files_simps example_headers)

section \<open>The properties\<close>

subsection \<open>C1: System records\<close>

text \<open>
  C1, as amended.  For every record selected by lookup that has the IsSystem flag and
  a nonzero special value, that is not flagged IsModifier and whose key code is outside
  the range of the lock keys, a genuine first press is absorbed entirely: no key event
  reaches the windowing layer, the handler is unchanged, the action of the special
  value is returned, and the only effect is the request to quit of an enabled zap.
\<close>

theorem system_record_first_press_absorbed:
  assumes sel: "selected (lookup s code) = Some i"
    and sy: "flags (m_keymap s ! i) AND IsSystem \<noteq> 0"
    and sp: "special (m_keymap s ! i) \<noteq> 0"
    and nmd: "flags (m_keymap s ! i) AND IsModifier = 0"
    and nlk: "\<not> (Key_CapsLock \<le> qtcode (m_keymap s ! i) \<and> qtcode (m_keymap s ! i) \<le> Key_ScrollLock)"
  shows "\<exists>effs.
     processKeycode s code True False = (system_action (special (m_keymap s ! i)), effs, s) \<and>
     key_events effs = [] \<and>
     effs = (if special (m_keymap s ! i) = SystemZap \<and> \<not> m_no_zap s then [AppQuit] else [])"
proof -
  let ?it = "m_keymap s ! i"
  have d: "dispatch s ?it True True =
             (system_action (special ?it), True, qtcode ?it,
              (if special ?it = SystemZap \<and> \<not> m_no_zap s then [AppQuit] else []), s)"
    using sy sp nmd nlk by (simp add: dispatch_def Let_def)
  show ?thesis
    by (simp add: processKeycode_selected [OF sel] Let_def d)
qed

text \<open>Ctrl+Alt+Backspace in the example keymap: the first press asks to quit and emits nothing.\<close>

theorem system_record_first_press_absorbed_witness:
  "\<exists>effs.
     processKeycode (example_handler\<lparr>m_modifiers := 0x0c\<rparr>) 14 True False =
       (NoAction, effs, example_handler\<lparr>m_modifiers := 0x0c\<rparr>) \<and>
     key_events effs = [] \<and> effs = [AppQuit]"
proof -
  let ?s = "example_handler\<lparr>m_modifiers := 0x0c\<rparr>"
  have sel: "selected (lookup ?s 14) = Some 5" by code_simp
  have sy: "flags (m_keymap ?s ! 5) AND IsSystem \<noteq> 0" by code_simp
  have sp: "special (m_keymap ?s ! 5) \<noteq> 0" by code_simp
  have nmd: "flags (m_keymap ?s ! 5) AND IsModifier = 0" by code_simp
  have nlk: "\<not> (Key_CapsLock \<le> qtcode (m_keymap ?s ! 5) \<and>
                qtcode (m_keymap ?s ! 5) \<le> Key_ScrollLock)"
    by code_simp
  have z: "special (m_keymap ?s ! 5) = SystemZap" "\<not> m_no_zap ?s"
    "system_action (special (m_keymap ?s ! 5)) = NoAction"
    by code_simp+
  from system_record_first_press_absorbed [OF sel sy sp nmd nlk] z
  show ?thesis by simp
qed

text \<open>
  The release and the autorepeat of Ctrl+Alt+Backspace are forwarded as key events; so
  is the first press of a system record that is also a modifier record or a lock key.
\<close>

theorem system_record_counterexample:
  "selected (lookup (example_handler\<lparr>m_modifiers := 0x0c\<rparr>) 14) = Some 5 \<and>
   flags (example_keymap ! 5) AND IsSystem \<noteq> 0 \<and> special (example_keymap ! 5) \<noteq> 0 \<and>
   map ev_type (key_events (fst (snd
     (processKeycode (example_handler\<lparr>m_modifiers := 0x0c\<rparr>) 14 False False)))) = [KeyRelease] \<and>
   map ev_autorep (key_events (fst (snd
     (processKeycode (example_handler\<lparr>m_modifiers := 0x0c\<rparr>) 14 True True)))) = [True] \<and>
   selected (lookup overlap_handler 14) = Some 0 \<and>
   flags (overlap_keymap ! 0) AND IsSystem \<noteq> 0 \<and> special (overlap_keymap ! 0) \<noteq> 0 \<and>
   map ev_type (key_events (fst (snd (processKeycode overlap_handler 14 True False)))) = [KeyPress] \<and>
   selected (lookup overlap_handler 70) = Some 2 \<and>
   flags (overlap_keymap ! 2) AND IsSystem \<noteq> 0 \<and> special (overlap_keymap ! 2) \<noteq> 0 \<and>
   map ev_type (key_events (fst (snd (processKeycode overlap_handler 70 True False)))) = [KeyPress]"
  by code_simp

subsection \<open>C2: Modifier records\<close>

text \<open>
  C2, as amended.  For every record selected by lookup that has the IsModifier flag
  and a nonzero special value: on press, processKeycode ORs the low byte of special
  into the live modifier byte; on release, it ANDs it out; no other member changes and
  no action is returned.  In both cases exactly one key event for that scancode is
  handed to the windowing layer: the modifier key itself is reported as a key.
\<close>

theorem modifier_record_updates_and_emits:
  assumes sel: "selected (lookup s code) = Some i"
    and md: "flags (m_keymap s ! i) AND IsModifier \<noteq> 0"
    and sp: "special (m_keymap s ! i) \<noteq> 0"
  shows "\<exists>effs ev.
     processKeycode s code pressed autorepeat =
       (NoAction, effs,
        s\<lparr>m_modifiers :=
             (if pressed then m_modifiers s OR ucast (special (m_keymap s ! i))
              else m_modifiers s AND NOT (ucast (special (m_keymap s ! i))))\<rparr>) \<and>
     key_events effs = [ev] \<and>
     ev_type ev = (if pressed then KeyPress else KeyRelease) \<and>
     ev_nativeScanCode ev = ucast code + 8 \<and>
     ev_autorep ev = autorepeat"
proof -
  let ?it = "m_keymap s ! i"
  let ?s1 = "s\<lparr>m_modifiers :=
             (if pressed then m_modifiers s OR ucast (special ?it)
              else m_modifiers s AND NOT (ucast (special ?it)))\<rparr>"
  have d: "dispatch s ?it pressed fp = (NoAction, False, qtcode ?it, [], ?s1)" for fp
    using md sp by (simp add: dispatch_def)
  have r: "resolve_compose ?s1 ?it fp uc qc = (False, uc, qc, ?s1)" for fp uc qc
    using md by (simp add: resolve_compose_def)
  obtain qc uc where
    pk: "processKeycode s code pressed autorepeat =
           (NoAction, emit_key ?s1 code uc qc pressed autorepeat, ?s1)"
    by (simp add: processKeycode_selected [OF sel] Let_def d r)
  from key_events_emit_key [of ?s1 code uc qc pressed autorepeat] pk
  show ?thesis by auto
qed

text \<open>Left Shift in the example keymap, pressed and released.\<close>

theorem modifier_record_updates_and_emits_witness:
  "(\<exists>effs ev.
     processKeycode example_handler 42 True False =
       (NoAction, effs, example_handler\<lparr>m_modifiers := 0x01\<rparr>) \<and>
     key_events effs = [ev] \<and> ev_type ev = KeyPress \<and> ev_nativeScanCode ev = 50 \<and>
     \<not> ev_autorep ev) \<and>
   (\<exists>effs ev.
     processKeycode (example_handler\<lparr>m_modifiers := 0x01\<rparr>) 42 False False =
       (NoAction, effs, example_handler\<lparr>m_modifiers := 0\<rparr>) \<and>
     key_events effs = [ev] \<and> ev_type ev = KeyRelease \<and> ev_nativeScanCode ev = 50 \<and>
     \<not> ev_autorep ev)"
proof -
  let ?s = "example_handler\<lparr>m_modifiers := 0x01\<rparr>"
  have sel: "selected (lookup example_handler 42) = Some 2" by code_simp
  have sel': "selected (lookup ?s 42) = Some 2" by code_simp
  have it: "m_keymap example_handler ! 2 =
     \<lparr>keycode = 42, qtcode = 0x01000020, modifiers = 0, flags = 0x04, special = 0x01,
        unicode = 0xffff\<rparr>"
    "m_keymap ?s ! 2 =
     \<lparr>keycode = 42, qtcode = 0x01000020, modifiers = 0, flags = 0x04, special = 0x01,
        unicode = 0xffff\<rparr>"
    by (simp_all add: example_handler_def example_keymap_def)
  have m: "m_modifiers example_handler = 0" by (simp add: example_handler_def)
  have md: "flags (m_keymap example_handler ! 2) AND IsModifier \<noteq> 0"
    "flags (m_keymap ?s ! 2) AND IsModifier \<noteq> 0"
    by (simp_all add: it IsModifier_def)
  have sp: "special (m_keymap example_handler ! 2) \<noteq> 0" "special (m_keymap ?s ! 2) \<noteq> 0"
    by (simp_all add: it)
  from modifier_record_updates_and_emits [OF sel md(1) sp(1), of True False]
       modifier_record_updates_and_emits [OF sel' md(2) sp(2), of False False]
  show ?thesis by (simp add: it m)
qed

text \<open>The press and the release of left Shift each reach the windowing layer.\<close>

theorem modifier_record_counterexample:
  "selected (lookup example_handler 42) = Some 2 \<and>
   flags (example_keymap ! 2) AND IsModifier \<noteq> 0 \<and> special (example_keymap ! 2) \<noteq> 0 \<and>
   map ev_key (key_events (fst (snd (processKeycode example_handler 42 True False))))
     = [0x01000020] \<and>
   map ev_type (key_events (fst (snd (processKeycode example_handler 42 True False))))
     = [KeyPress] \<and>
   map ev_type (key_events (fst (snd
     (processKeycode (example_handler\<lparr>m_modifiers := 0x01\<rparr>) 42 False False)))) = [KeyRelease]"
  by code_simp

subsection \<open>C3: The same dead key twice\<close>

text \<open>
  C3, as amended.  With compose mode enabled, in dead-key stage 1, a genuine first
  press of the same dead key (a record with the IsDead flag whose unicode equals the
  pending dead unicode, and that no earlier category takes: not a modifier record, a
  lock key, a system record or the compose key) cancels the composition, the stage
  returns to idle, and exactly one key event is emitted: its key code is Key_unknown
  and its text is the dead key's own character.
\<close>

theorem dead_key_twice_cancels:
  assumes cmp: "m_do_compose s"
    and st1: "m_composing s = 1"
    and sel: "selected (lookup s code) = Some i"
    and dead: "flags (m_keymap s ! i) AND IsDead \<noteq> 0"
    and same: "unicode (m_keymap s ! i) = m_dead_unicode s"
    and nmd: "\<not> (flags (m_keymap s ! i) AND IsModifier \<noteq> 0 \<and> special (m_keymap s ! i) \<noteq> 0)"
    and nlk: "\<not> (Key_CapsLock \<le> qtcode (m_keymap s ! i) \<and> qtcode (m_keymap s ! i) \<le> Key_ScrollLock)"
    and nsy: "\<not> (flags (m_keymap s ! i) AND IsSystem \<noteq> 0 \<and> special (m_keymap s ! i) \<noteq> 0)"
    and nck: "qtcode (m_keymap s ! i) \<noteq> Key_Multi_key"
  shows "\<exists>effs ev.
     processKeycode s code True False = (NoAction, effs, s\<lparr>m_composing := 0\<rparr>) \<and>
     key_events effs = [ev] \<and>
     ev_key ev = Key_unknown \<and>
     ev_text ev = (if m_dead_unicode s \<noteq> 0xffff then [m_dead_unicode s] else []) \<and>
     ev_type ev = KeyPress \<and> \<not> ev_autorep ev"
proof -
  let ?it = "m_keymap s ! i"
  let ?s1 = "s\<lparr>m_composing := 0\<rparr>"
  have d: "dispatch s ?it True True = (NoAction, False, Key_unknown, [], ?s1)"
    using cmp st1 dead same nmd nlk nsy nck by (auto simp add: dispatch_def Let_def)
  have r: "resolve_compose ?s1 ?it fp uc qc = (False, uc, qc, ?s1)" for fp uc qc
    by (simp add: resolve_compose_def)
  have k: "key_events (emit_key ?s1 code (unicode ?it) qc True False) =
     [\<lparr> ev_type = KeyPress, ev_key = Key_unknown,
        ev_modifiers = qc AND modmask, ev_nativeScanCode = ucast code + 8,
        ev_nativeVirtualKey = 0, ev_nativeModifiers = qc AND modmask,
        ev_text = (if m_dead_unicode s \<noteq> 0xffff then [m_dead_unicode s] else []),
        ev_autorep = False \<rparr>]"
    if "qc = Key_unknown \<or> qc = Key_unknown OR toQtModifiers md" for qc md
  proof -
    have u: "Key_unknown AND NOT modmask = Key_unknown" "Key_unknown AND KeypadModifier = 0"
      "Key_unknown \<noteq> Key_Tab"
      by (simp_all add: qt_consts)
    from that have a: "qc AND NOT modmask = Key_unknown"
      by (auto simp: or_toQtModifiers_key u)
    from that have b: "qc AND KeypadModifier = 0"
      by (auto simp: bit.conj_disj_distrib2 toQtModifiers_no_keypad u)
    from key_events_emit_key_plain [of ?s1 qc code "unicode ?it" True False] a b u same
    show ?thesis by simp
  qed
  have k1: "key_events (emit_key ?s1 code (unicode ?it) Key_unknown True False) =
     [\<lparr> ev_type = KeyPress, ev_key = Key_unknown,
        ev_modifiers = Key_unknown AND modmask, ev_nativeScanCode = ucast code + 8,
        ev_nativeVirtualKey = 0, ev_nativeModifiers = Key_unknown AND modmask,
        ev_text = (if m_dead_unicode s \<noteq> 0xffff then [m_dead_unicode s] else []),
        ev_autorep = False \<rparr>]"
    by (rule k) simp
  have k2: "key_events (emit_key ?s1 code (unicode ?it) (Key_unknown OR toQtModifiers md) True False) =
     [\<lparr> ev_type = KeyPress, ev_key = Key_unknown,
        ev_modifiers = (Key_unknown OR toQtModifiers md) AND modmask,
        ev_nativeScanCode = ucast code + 8,
        ev_nativeVirtualKey = 0,
        ev_nativeModifiers = (Key_unknown OR toQtModifiers md) AND modmask,
        ev_text = (if m_dead_unicode s \<noteq> 0xffff then [m_dead_unicode s] else []),
        ev_autorep = False \<rparr>]" for md
    by (rule k [where md = md]) simp
  show ?thesis
    by (simp add: processKeycode_selected [OF sel] Let_def d r k1 k2)
qed

text \<open>The dead acute accent, pressed while it is pending.\<close>

theorem dead_key_twice_cancels_witness:
  "\<exists>effs ev.
     processKeycode (example_handler\<lparr>m_dead_unicode := 0xb4, m_composing := 1\<rparr>) 40 True False =
       (NoAction, effs, example_handler\<lparr>m_dead_unicode := 0xb4, m_composing := 0\<rparr>) \<and>
     key_events effs = [ev] \<and> ev_key ev = Key_unknown \<and> ev_text ev = [0xb4] \<and>
     ev_type ev = KeyPress \<and> \<not> ev_autorep ev"
proof -
  let ?s = "example_handler\<lparr>m_dead_unicode := 0xb4, m_composing := 1\<rparr>"
  have cmp: "m_do_compose ?s" and st1: "m_composing ?s = 1"
    by (simp_all add: example_handler_def)
  have sel: "selected (lookup ?s 40) = Some 6" by code_simp
  have dead: "flags (m_keymap ?s ! 6) AND IsDead \<noteq> 0" by code_simp
  have same: "unicode (m_keymap ?s ! 6) = m_dead_unicode ?s" by code_simp
  have nmd: "\<not> (flags (m_keymap ?s ! 6) AND IsModifier \<noteq> 0 \<and> special (m_keymap ?s ! 6) \<noteq> 0)"
    by code_simp
  have nlk: "\<not> (Key_CapsLock \<le> qtcode (m_keymap ?s ! 6) \<and>
                qtcode (m_keymap ?s ! 6) \<le> Key_ScrollLock)"
    by code_simp
  have nsy: "\<not> (flags (m_keymap ?s ! 6) AND IsSystem \<noteq> 0 \<and> special (m_keymap ?s ! 6) \<noteq> 0)"
    by code_simp
  have nck: "qtcode (m_keymap ?s ! 6) \<noteq> Key_Multi_key" by code_simp
  from dead_key_twice_cancels [OF cmp st1 sel dead same nmd nlk nsy nck]
  show ?thesis by simp
qed

text \<open>
  The event of the second press has the key code unknown, not the dead key's own
  0x01001251, and its text is the accent, not empty.  A dead key that is flagged as a
  modifier is taken as a modifier: the composition stays pending.
\<close>

theorem dead_key_twice_counterexample:
  "m_do_compose (example_handler\<lparr>m_dead_unicode := 0xb4, m_composing := 1\<rparr>) \<and>
   m_composing (example_handler\<lparr>m_dead_unicode := 0xb4, m_composing := 1\<rparr>) = 1 \<and>
   selected (lookup (example_handler\<lparr>m_dead_unicode := 0xb4, m_composing := 1\<rparr>) 40) = Some 6 \<and>
   flags (example_keymap ! 6) AND IsDead \<noteq> 0 \<and>
   unicode (example_keymap ! 6) = 0xb4 \<and>
   qtcode (example_keymap ! 6) = 0x01001251 \<and>
   map ev_key (key_events (fst (snd (processKeycode
     (example_handler\<lparr>m_dead_unicode := 0xb4, m_composing := 1\<rparr>) 40 True False))))
     = [0x01ffffff] \<and>
   map ev_text (key_events (fst (snd (processKeycode
     (example_handler\<lparr>m_dead_unicode := 0xb4, m_composing := 1\<rparr>) 40 True False))))
     = [[0xb4]] \<and>
   selected (lookup (overlap_handler\<lparr>m_dead_unicode := 0xb4, m_composing := 1\<rparr>) 41) = Some 5 \<and>
   flags (overlap_keymap ! 5) AND IsDead \<noteq> 0 \<and>
   unicode (overlap_keymap ! 5) = 0xb4 \<and>
   m_composing (snd (snd (processKeycode
     (overlap_handler\<lparr>m_dead_unicode := 0xb4, m_composing := 1\<rparr>) 41 True False))) = 1"
  by code_simp

subsection \<open>C4: A keymap file that is rejected\<close>




subsection \<open>C5: Lookup\<close>

text \<open>
  C5.  For every scancode and state, a candidate record matches when its scancode
  is the one looked up and its modifier mask equals the effective test value (the
  live modifiers, Shift XOR-ed in when CapsLock is on and the candidate is a letter,
  AltGr XOR-ed in when the language lock is on).  When the table holds such a match,
  the scan finds one and it is the record selected, whether or not a plain record
  exists too; when it holds none, the plain record found, if any, is selected.
\<close>

theorem lookup_prefers_exact_match:
  "lookup s code = (p, w) \<Longrightarrow>
     ((\<exists>m\<in>set (m_keymap s). exact_match s code m) \<longrightarrow>
        (\<exists>j. selected (p, w) = Some j \<and> w = Some j \<and> j < length (m_keymap s) \<and>
             exact_match s code (m_keymap s ! j))) \<and>
     (\<not> (\<exists>m\<in>set (m_keymap s). exact_match s code m) \<longrightarrow>
        w = None \<and> selected (p, w) = p \<and>
        (\<forall>j. p = Some j \<longrightarrow> j < length (m_keymap s) \<and> plain_match code (m_keymap s ! j)) \<and>
        ((p = None) = (\<forall>m\<in>set (m_keymap s). \<not> plain_match code m)))"
proof (intro conjI impI)
  assume pw: "lookup s code = (p, w)" and ex: "\<exists>m\<in>set (m_keymap s). exact_match s code m"
  from lookup_None_iff [OF pw] ex obtain j where j: "w = Some j" by auto
  from lookup_withmod_Some [OF pw j] j
  show "\<exists>j. selected (p, w) = Some j \<and> w = Some j \<and> j < length (m_keymap s) \<and>
             exact_match s code (m_keymap s ! j)"
    by (simp add: selected_def)
next
  assume pw: "lookup s code = (p, w)"
    and nex: "\<not> (\<exists>m\<in>set (m_keymap s). exact_match s code m)"
  from lookup_None_iff [OF pw] nex show w: "w = None" by auto
  then show "selected (p, w) = p" by (simp add: selected_def)
  from lookup_plain_Some [OF pw]
  show "\<forall>j. p = Some j \<longrightarrow> j < length (m_keymap s) \<and> plain_match code (m_keymap s ! j)"
    by blast
  from lookup_None_iff [OF pw]
  show "(p = None) = (\<forall>m\<in>set (m_keymap s). \<not> plain_match code m)" by simp
qed

text \<open>
  With Shift held, scancode 30 has the plain record 0 and the exact match 1 in the
  example keymap: record 1 is selected.  Scancode 42 has the plain record 2 only, and
  that one is selected.
\<close>

theorem lookup_prefers_exact_match_witness:
  "lookup (example_handler\<lparr>m_modifiers := 0x01\<rparr>) 30 = (Some 0, Some 1) \<and>
   plain_match 30 (example_keymap ! 0) \<and>
   exact_match (example_handler\<lparr>m_modifiers := 0x01\<rparr>) 30 (example_keymap ! 1) \<and>
   selected (Some 0, Some 1) = Some 1 \<and>
   lookup (example_handler\<lparr>m_modifiers := 0x01\<rparr>) 42 = (Some 2, None) \<and>
   list_all (\<lambda>m. \<not> exact_match (example_handler\<lparr>m_modifiers := 0x01\<rparr>) 42 m) example_keymap \<and>
   plain_match 42 (example_keymap ! 2) \<and>
   selected (Some 2, None) = Some 2"
proof -
  let ?s = "example_handler\<lparr>m_modifiers := 0x01\<rparr>"
  have l: "lookup ?s 30 = (Some 0, Some 1)"
    by code_simp
  have p: "plain_match 30 (example_keymap ! 0)"
    by code_simp
  have e: "exact_match ?s 30 (example_keymap ! 1)"
    by code_simp
  have k: "m_keymap ?s = example_keymap"
    by (simp add: example_handler_def)
  have "example_keymap ! 1 \<in> set example_keymap"
    by (simp add: example_keymap_def)
  with e k have "\<exists>m\<in>set (m_keymap ?s). exact_match ?s 30 m"
    by auto
  with lookup_prefers_exact_match [OF l] have 1: "selected (Some 0, Some 1) = Some 1"
    by auto
  have l': "lookup ?s 42 = (Some 2, None)"
    by code_simp
  have n: "list_all (\<lambda>m. \<not> exact_match ?s 42 m) example_keymap"
    by code_simp
  with k have "\<not> (\<exists>m\<in>set (m_keymap ?s). exact_match ?s 42 m)"
    by (simp add: list_all_iff)
  with lookup_prefers_exact_match [OF l'] k
  have 2: "selected (Some 2, None) = Some 2 \<and> plain_match 42 (example_keymap ! 2)"
    by auto
  from l p e 1 l' n 2 show ?thesis by simp
qed

subsection \<open>C6: A scancode that is not in the layout\<close>

text \<open>
  C6.  For every scancode for which no record of the active table matches, neither
  a plain record nor an exact-modifier record, and for every press, release and
  autorepeat, processKeycode returns no action, has no effect on the outside and
  leaves every member of the handler as it was.
\<close>

theorem processKeycode_unmapped:
  assumes "\<forall>m\<in>set (m_keymap s). \<not> plain_match code m \<and> \<not> exact_match s code m"
  shows "processKeycode s code pressed autorepeat = (NoAction, [], s)"
proof -
  obtain p w where pw: "lookup s code = (p, w)" by (cases "lookup s code")
  from lookup_None_iff [OF pw] assms have "p = None" "w = None" by auto
  with pw show ?thesis by (simp add: processKeycode_def selected_def)
qed

text \<open>Scancode 31 is not in the example keymap.\<close>

theorem processKeycode_unmapped_witness:
  "list_all (\<lambda>m. \<not> plain_match 31 m \<and> \<not> exact_match example_handler 31 m) example_keymap \<and>
   processKeycode example_handler 31 True False = (NoAction, [], example_handler) \<and>
   processKeycode example_handler 31 False False = (NoAction, [], example_handler) \<and>
   processKeycode example_handler 31 True True = (NoAction, [], example_handler)"
proof -
  have h: "list_all (\<lambda>m. \<not> plain_match 31 m \<and> \<not> exact_match example_handler 31 m)
             example_keymap"
    by code_simp
  have k: "m_keymap example_handler = example_keymap"
    by (simp add: example_handler_def)
  from h k have a:
    "\<forall>m\<in>set (m_keymap example_handler). \<not> plain_match 31 m \<and> \<not> exact_match example_handler 31 m"
    by (simp add: list_all_iff)
  from h processKeycode_unmapped [OF a] show ?thesis by simp
qed

subsection \<open>C7: A keymap file that is loaded\<close>

text \<open>
  C7.  After every successful loadKeymap the tables of the handler are the mapping
  and compose records read from the file, as many as the header declares, and the
  translator state is reset: the modifier byte is 0, the three lock flags are 0, the
  compose stage is idle, the pending dead unicode is 0xffff and the language lock is 0.
\<close>

theorem loadKeymap_success_resets:
  assumes "loadKeymap e file s = (Inr True, s')"
  shows "\<exists>bytes. files e file = Some bytes \<and>
     m_keymap s' = file_keymap (byte_order e) bytes \<and>
     length (m_keymap s') = unat (header_field (byte_order e) bytes 2) \<and>
     m_keycompose s' = file_keycompose (byte_order e) bytes \<and>
     length (m_keycompose s') = unat (header_field (byte_order e) bytes 3) \<and>
     m_modifiers s' = 0 \<and> m_locks s' = [0, 0, 0] \<and> m_composing s' = 0 \<and>
     m_dead_unicode s' = 0xffff \<and> m_langLock s' = 0"
proof (cases "files e file")
  case None
  with assms show ?thesis by (simp add: loadKeymap_def)
next
  case (Some bytes)
  from assms have s': "s' = (unloadKeymap e s)
              \<lparr> m_keymap := file_keymap (byte_order e) bytes,
                 m_keycompose := file_keycompose (byte_order e) bytes,
                 m_do_compose := True \<rparr>"
    by (simp add: loadKeymap_Some [OF Some] split: if_splits)
  show ?thesis
    by (simp add: Some s' unloadKeymap_def file_keymap_def file_keycompose_def length_rd_array)
qed

text \<open>Loading \<open>a.qmap\<close> into a handler with Shift held, CapsLock on and the language lock on.\<close>

theorem loadKeymap_success_resets_witness:
  "fst (loadKeymap example_env ''a.qmap''
          (example_handler\<lparr>m_modifiers := 1, m_locks := [1, 0, 0], m_langLock := 1\<rparr>)) = Inr True \<and>
   (\<exists>s'. loadKeymap example_env ''a.qmap''
          (example_handler\<lparr>m_modifiers := 1, m_locks := [1, 0, 0], m_langLock := 1\<rparr>)
        = (Inr True, s') \<and>
      m_keymap s' =
        [\<lparr>keycode = 30, qtcode = 0x41, modifiers = 0, flags = 0x02, special = 0,
           unicode = 0x61\<rparr>,
         \<lparr>keycode = 100, qtcode = 0x01001120, modifiers = 0, flags = 0, special = 0,
           unicode = 0xffff\<rparr>] \<and>
      m_keycompose s' = [\<lparr>first = 0xb4, second = 0x65, result = 0xe9\<rparr>] \<and>
      m_modifiers s' = 0 \<and> m_locks s' = [0, 0, 0] \<and> m_composing s' = 0 \<and>
      m_dead_unicode s' = 0xffff \<and> m_langLock s' = 0)"
proof -
  let ?s = "example_handler\<lparr>m_modifiers := 1, m_locks := [1, 0, 0], m_langLock := 1\<rparr>"
  let ?r = "loadKeymap example_env ''a.qmap'' ?s"
  have ok: "fst ?r = Inr True"
    by (simp add: loadKeymap_outcome example_rejected example_allocation)
  then have pk: "?r = (Inr True, snd ?r)" by (cases ?r) simp
  have f: "files example_env ''a.qmap'' = Some example_qmap"
    by (simp add: example_env_fields example_files_simps)
  have km: "file_keymap BigEndian example_qmap =
        [\<lparr>keycode = 30, qtcode = 0x41, modifiers = 0, flags = 0x02, special = 0,
           unicode = 0x61\<rparr>,
         \<lparr>keycode = 100, qtcode = 0x01001120, modifiers = 0, flags = 0, special = 0,
           unicode = 0xffff\<rparr>]"
    by code_simp
  have kc: "file_keycompose BigEndian example_qmap =
        [\<lparr>first = 0xb4, second = 0x65, result = 0xe9\<rparr>]"
    by code_simp
  from loadKeymap_success_resets [OF pk] f km kc
  have "m_keymap (snd ?r) =
        [\<lparr>keycode = 30, qtcode = 0x41, modifiers = 0, flags = 0x02, special = 0,
           unicode = 0x61\<rparr>,
         \<lparr>keycode = 100, qtcode = 0x01001120, modifiers = 0, flags = 0, special = 0,
           unicode = 0xffff\<rparr>] \<and>
      m_keycompose (snd ?r) = [\<lparr>first = 0xb4, second = 0x65, result = 0xe9\<rparr>] \<and>
      m_modifiers (snd ?r) = 0 \<and> m_locks (snd ?r) = [0, 0, 0] \<and> m_composing (snd ?r) = 0 \<and>
      m_dead_unicode (snd ?r) = 0xffff \<and> m_langLock (snd ?r) = 0"
    by (auto simp add: example_env_fields)
  with ok pk show ?thesis by blast
qed

subsection \<open>C8: The keypad and NumLock\<close>

text \<open>
  C8, as amended.  For every key event that processKeycode emits: when NumLock is off,
  the reported modifiers include the keypad flag and the scancode is one of 71, 72, 73,
  75, 76, 77, 79, 80, 81, 82, 83, the key code is the navigation key of that scancode
  (71 is Home) and the text is empty.  With NumLock on, when no composition is pending
  and the key is not Tab with Shift, the event carries the key code of the selected
  record, without its modifier bits, and the record's unicode.
\<close>

theorem keypad_remap_numlock:
  assumes pk: "processKeycode s code pressed autorepeat = (res, effs, s')"
    and ev: "key_events effs = [ev]"
  shows
    "(m_locks s ! 1 = 0 \<and> ev_modifiers ev AND KeypadModifier \<noteq> 0 \<and>
      code \<in> {71, 72, 73, 75, 76, 77, 79, 80, 81, 82, 83} \<longrightarrow>
        ev_text ev = [] \<and>
        (code = 71 \<longrightarrow> ev_key ev = Key_Home) \<and> (code = 72 \<longrightarrow> ev_key ev = Key_Up) \<and>
        (code = 73 \<longrightarrow> ev_key ev = Key_PageUp) \<and> (code = 75 \<longrightarrow> ev_key ev = Key_Left) \<and>
        (code = 76 \<longrightarrow> ev_key ev = Key_Clear) \<and> (code = 77 \<longrightarrow> ev_key ev = Key_Right) \<and>
        (code = 79 \<longrightarrow> ev_key ev = Key_End) \<and> (code = 80 \<longrightarrow> ev_key ev = Key_Down) \<and>
        (code = 81 \<longrightarrow> ev_key ev = Key_PageDown) \<and> (code = 82 \<longrightarrow> ev_key ev = Key_Insert) \<and>
        (code = 83 \<longrightarrow> ev_key ev = Key_Delete)) \<and>
     (m_locks s ! 1 \<noteq> 0 \<and> m_composing s = 0 \<and> selected (lookup s code) = Some i \<and>
      \<not> (qtcode (m_keymap s ! i) AND NOT modmask = Key_Tab \<and>
         ev_modifiers ev AND ShiftModifier = ShiftModifier) \<longrightarrow>
        ev_key ev = qtcode (m_keymap s ! i) AND NOT modmask \<and>
        ev_text ev =
          (if unicode (m_keymap s ! i) \<noteq> 0xffff then [unicode (m_keymap s ! i)] else []))"
proof (intro conjI impI)
  assume h: "m_locks s ! 1 = 0 \<and> ev_modifiers ev AND KeypadModifier \<noteq> 0 \<and>
      code \<in> {71, 72, 73, 75, 76, 77, 79, 80, 81, 82, 83}"
  obtain j where sel: "selected (lookup s code) = Some j"
  proof (cases "selected (lookup s code)")
    case None
    with pk ev have False
      by (cases "lookup s code") (auto simp add: processKeycode_def Let_def)
    then show ?thesis ..
  next
    case (Some j)
    then show ?thesis by (rule that)
  qed
  from processKeycode_emission [OF sel pk] ev obtain uc qc where
    e: "key_events (emit_key s' code uc qc pressed autorepeat) = [ev]"
    and l: "m_locks s' ! 1 = m_locks s ! 1 \<or> qc AND KeypadModifier = 0"
    by auto
  from key_events_emit_key [of s' code uc qc pressed autorepeat] e
  have m: "ev_modifiers ev = qc AND modmask" by auto
  with h have k: "qc AND KeypadModifier \<noteq> 0" by (simp add: and_modmask_keypad)
  with l h have n: "m_locks s' ! 1 = 0" by auto
  from key_events_emit_key_remap [OF n k, of code uc pressed autorepeat] h e
  have r: "ev_text ev = [] \<and>
     ev_key ev =
       (if code = 71 then Key_Home else if code = 72 then Key_Up
        else if code = 73 then Key_PageUp else if code = 75 then Key_Left
        else if code = 76 then Key_Clear else if code = 77 then Key_Right
        else if code = 79 then Key_End else if code = 80 then Key_Down
        else if code = 81 then Key_PageDown else if code = 82 then Key_Insert
        else Key_Delete)"
    by auto
  from r show "ev_text ev = []" by simp
  from r show "code = 71 \<Longrightarrow> ev_key ev = Key_Home" by simp
  from r show "code = 72 \<Longrightarrow> ev_key ev = Key_Up" by simp
  from r show "code = 73 \<Longrightarrow> ev_key ev = Key_PageUp" by simp
  from r show "code = 75 \<Longrightarrow> ev_key ev = Key_Left" by simp
  from r show "code = 76 \<Longrightarrow> ev_key ev = Key_Clear" by simp
  from r show "code = 77 \<Longrightarrow> ev_key ev = Key_Right" by simp
  from r show "code = 79 \<Longrightarrow> ev_key ev = Key_End" by simp
  from r show "code = 80 \<Longrightarrow> ev_key ev = Key_Down" by simp
  from r show "code = 81 \<Longrightarrow> ev_key ev = Key_PageDown" by simp
  from r show "code = 82 \<Longrightarrow> ev_key ev = Key_Insert" by simp
  from r show "code = 83 \<Longrightarrow> ev_key ev = Key_Delete" by simp
next
  assume h: "m_locks s ! 1 \<noteq> 0 \<and> m_composing s = 0 \<and> selected (lookup s code) = Some i \<and>
      \<not> (qtcode (m_keymap s ! i) AND NOT modmask = Key_Tab \<and>
         ev_modifiers ev AND ShiftModifier = ShiftModifier)"
  then have sel: "selected (lookup s code) = Some i" by simp
  from processKeycode_emission [OF sel pk] ev h obtain uc qc where
    e: "key_events (emit_key s' code uc qc pressed autorepeat) = [ev]"
    and l: "m_locks s' ! 1 = m_locks s ! 1 \<or> qc AND KeypadModifier = 0"
    and u: "uc = unicode (m_keymap s ! i)"
    and q: "qc AND NOT modmask = qtcode (m_keymap s ! i) AND NOT modmask"
    by auto
  from key_events_emit_key [of s' code uc qc pressed autorepeat] e
  have m: "ev_modifiers ev = qc AND modmask" by auto
  from l h have a: "m_locks s' ! 1 \<noteq> 0 \<or> qc AND KeypadModifier = 0" by auto
  from h q m have b: "\<not> (qc AND NOT modmask = Key_Tab \<and>
            (qc AND modmask) AND ShiftModifier = ShiftModifier)" by auto
  from key_events_emit_key_plain [OF a b, of code uc pressed autorepeat] e u q
  have "ev_key ev = qtcode (m_keymap s ! i) AND NOT modmask \<and>
        ev_text ev =
          (if unicode (m_keymap s ! i) \<noteq> 0xffff then [unicode (m_keymap s ! i)] else [])"
    by auto
  then show "ev_key ev = qtcode (m_keymap s ! i) AND NOT modmask"
    and "ev_text ev =
          (if unicode (m_keymap s ! i) \<noteq> 0xffff then [unicode (m_keymap s ! i)] else [])"
    by simp_all
qed

text \<open>The keypad's 7 in the example keymap, with NumLock off and with NumLock on.\<close>

theorem keypad_remap_numlock_witness:
  "ev_modifiers (hd (key_events (fst (snd (processKeycode example_handler 71 True False)))))
     AND KeypadModifier \<noteq> 0 \<and>
   ev_key (hd (key_events (fst (snd (processKeycode example_handler 71 True False)))))
     = Key_Home \<and>
   ev_text (hd (key_events (fst (snd (processKeycode example_handler 71 True False))))) = [] \<and>
   ev_key (hd (key_events (fst (snd
     (processKeycode (example_handler\<lparr>m_locks := [0, 1, 0]\<rparr>) 71 True False))))) = 0x37 \<and>
   ev_text (hd (key_events (fst (snd
     (processKeycode (example_handler\<lparr>m_locks := [0, 1, 0]\<rparr>) 71 True False))))) = [0x37]"
proof -
  let ?s = "example_handler"
  let ?t = "example_handler\<lparr>m_locks := [0, 1, 0]\<rparr>"
  let ?a = "processKeycode ?s 71 True False"
  let ?b = "processKeycode ?t 71 True False"
  have pa: "?a = (fst ?a, fst (snd ?a), snd (snd ?a))" by simp
  have pb: "?b = (fst ?b, fst (snd ?b), snd (snd ?b))" by simp
  have ea: "key_events (fst (snd ?a)) = [hd (key_events (fst (snd ?a)))]" by code_simp
  have eb: "key_events (fst (snd ?b)) = [hd (key_events (fst (snd ?b)))]" by code_simp
  have ha: "m_locks ?s ! 1 = 0" by code_simp
  have ka: "ev_modifiers (hd (key_events (fst (snd ?a)))) AND KeypadModifier \<noteq> 0"
    by code_simp
  have hb: "m_locks ?t ! 1 \<noteq> 0" "m_composing ?t = 0" "selected (lookup ?t 71) = Some 8"
    "qtcode (m_keymap ?t ! 8) AND NOT modmask \<noteq> Key_Tab"
    "qtcode (m_keymap ?t ! 8) AND NOT modmask = 0x37"
    "unicode (m_keymap ?t ! 8) = 0x37"
    by code_simp+
  from keypad_remap_numlock [OF pa ea, of 8] ha ka
  have 1: "ev_key (hd (key_events (fst (snd ?a)))) = Key_Home \<and>
           ev_text (hd (key_events (fst (snd ?a)))) = []"
    by simp
  from keypad_remap_numlock [OF pb eb, of 8] hb
  have 2: "ev_key (hd (key_events (fst (snd ?b)))) = 0x37 \<and>
           ev_text (hd (key_events (fst (snd ?b)))) = [0x37]"
    by simp
  from ka 1 2 show ?thesis by simp
qed

text \<open>
  With NumLock on and the acute accent pending, the keypad's 7 is emitted as the
  accent with the key code unknown, not with the record's key code and unicode.  With
  NumLock on and Shift held, a Tab on scancode 72 is emitted as Backtab.
\<close>

theorem keypad_numlock_on_counterexample:
  "m_locks (example_handler\<lparr>m_locks := [0, 1, 0], m_dead_unicode := 0xb4, m_composing := 1\<rparr>) ! 1
     \<noteq> 0 \<and>
   selected (lookup
     (example_handler\<lparr>m_locks := [0, 1, 0], m_dead_unicode := 0xb4, m_composing := 1\<rparr>) 71)
     = Some 8 \<and>
   qtcode (example_keymap ! 8) = 0x20000037 \<and> unicode (example_keymap ! 8) = 0x37 \<and>
   map ev_key (key_events (fst (snd (processKeycode
     (example_handler\<lparr>m_locks := [0, 1, 0], m_dead_unicode := 0xb4, m_composing := 1\<rparr>)
     71 True False)))) = [0x01ffffff] \<and>
   map ev_text (key_events (fst (snd (processKeycode
     (example_handler\<lparr>m_locks := [0, 1, 0], m_dead_unicode := 0xb4, m_composing := 1\<rparr>)
     71 True False)))) = [[0xb4]] \<and>
   selected (lookup (overlap_handler\<lparr>m_modifiers := 0x01, m_locks := [0, 1, 0]\<rparr>) 72) = Some 6 \<and>
   qtcode (overlap_keymap ! 6) = Key_Tab OR KeypadModifier \<and>
   map ev_key (key_events (fst (snd (processKeycode
     (overlap_handler\<lparr>m_modifiers := 0x01, m_locks := [0, 1, 0]\<rparr>) 72 True False))))
     = [Key_Backtab]"
  by code_simp

subsection \<open>C9: Lock keys\<close>

text \<open>
  C9, as amended.  In a state whose three lock flags are 0 or 1, as they are in every
  state the handler reaches, for every scancode
  whose selected record is dispatched as a lock key (key code in the range from
  CapsLock to ScrollLock, not a modifier record) at both presses, with the same key
  code: two genuine first presses toggle the lock flag and return it to its original
  value, and the two calls return SetLock actions of that lock of opposite polarity.
  An autorepeat press of the same scancode returns no action and leaves the handler,
  and so the lock flag, unchanged.
\<close>

theorem lock_key_toggles_twice:
  assumes ok: "locks_ok s"
    and sel1: "selected (lookup s code) = Some i"
    and lk1: "lock_key_record (m_keymap s ! i)"
    and pk1: "processKeycode s code True False = (a1, effs1, s1)"
    and sel2: "selected (lookup s1 code) = Some i2"
    and lk2: "lock_key_record (m_keymap s1 ! i2)"
    and same: "qtcode (m_keymap s1 ! i2) = qtcode (m_keymap s ! i)"
    and pk2: "processKeycode s1 code True False = (a2, effs2, s2)"
    and pk3: "processKeycode s code True True = (a3, effs3, s3)"
  shows "m_locks s1 ! lock_index (m_keymap s ! i) \<noteq> m_locks s ! lock_index (m_keymap s ! i) \<and>
         m_locks s2 = m_locks s \<and>
         a1 = set_lock (lock_index (m_keymap s ! i)) (m_locks s ! lock_index (m_keymap s ! i) = 0) \<and>
         a2 = set_lock (lock_index (m_keymap s ! i)) (m_locks s ! lock_index (m_keymap s ! i) \<noteq> 0) \<and>
         a3 = NoAction \<and> s3 = s"
proof -
  let ?it = "m_keymap s ! i"
  let ?k = "lock_index ?it"
  let ?l = "m_locks s ! ?k"
  from ok have len: "length (m_locks s) = 3"
    and bits: "list_all (\<lambda>l. l = 0 \<or> l = 1) (m_locks s)"
    by (simp_all add: locks_ok_def)
  note c = lock_index_cases [OF lk1]
  from c len have klt: "?k < length (m_locks s)" by auto
  with bits have l01: "?l = 0 \<or> ?l = 1" by (simp add: list_all_length)
  note f1 = processKeycode_lock_first_press [OF sel1 lk1 pk1]
  from same have k2: "lock_index (m_keymap s1 ! i2) = ?k" by (simp add: lock_index_def)
  note f2 = processKeycode_lock_first_press [OF sel2 lk2 pk2, unfolded k2 same]
  from f1(2) klt have l1: "m_locks s1 ! ?k = ?l XOR 1" by simp
  from l01 l1 have t: "m_locks s1 ! ?k \<noteq> ?l" by auto
  have xx: "(?l XOR 1) XOR 1 = ?l" by (simp add: xor.assoc)
  from f2(2) f1(2) l1 klt have restored: "m_locks s2 = m_locks s" by (simp add: xx)
  from f1(1) c l01 have a1: "a1 = set_lock ?k (?l = 0)"
    by (auto simp add: lock_action_def set_lock_def qt_consts)
  from f2(1) l1 c l01 have a2: "a2 = set_lock ?k (?l \<noteq> 0)"
    by (auto simp add: lock_action_def set_lock_def qt_consts xx)
  from processKeycode_lock_autorepeat [OF sel1 lk1] pk3 have a3: "a3 = NoAction \<and> s3 = s"
    by auto
  from t restored a1 a2 a3 show ?thesis by simp
qed

text \<open>CapsLock in the example keymap.\<close>

theorem lock_key_toggles_twice_witness:
  "fst (processKeycode example_handler 58 True False) = CapsLockOn \<and>
   m_locks (snd (snd (processKeycode example_handler 58 True False))) ! 0 \<noteq> 0 \<and>
   fst (processKeycode (snd (snd (processKeycode example_handler 58 True False))) 58 True False)
     = CapsLockOff \<and>
   m_locks (snd (snd (processKeycode
     (snd (snd (processKeycode example_handler 58 True False))) 58 True False))) = [0, 0, 0] \<and>
   processKeycode example_handler 58 True True
     = (NoAction, fst (snd (processKeycode example_handler 58 True True)), example_handler)"
proof -
  let ?s = "example_handler"
  let ?p1 = "processKeycode ?s 58 True False"
  let ?s1 = "snd (snd ?p1)"
  let ?p2 = "processKeycode ?s1 58 True False"
  let ?p3 = "processKeycode ?s 58 True True"
  have ok: "locks_ok ?s" by code_simp
  have sel1: "selected (lookup ?s 58) = Some 3" by code_simp
  have lk1: "lock_key_record (m_keymap ?s ! 3)" by code_simp
  have pk1: "?p1 = (fst ?p1, fst (snd ?p1), ?s1)" by simp
  have sel2: "selected (lookup ?s1 58) = Some 3" by code_simp
  have lk2: "lock_key_record (m_keymap ?s1 ! 3)" by code_simp
  have same: "qtcode (m_keymap ?s1 ! 3) = qtcode (m_keymap ?s ! 3)" by code_simp
  have pk2: "?p2 = (fst ?p2, fst (snd ?p2), snd (snd ?p2))" by simp
  have pk3: "?p3 = (fst ?p3, fst (snd ?p3), snd (snd ?p3))" by simp
  have v: "lock_index (m_keymap ?s ! 3) = 0" "m_locks ?s = [0, 0, 0]" by code_simp+
  from lock_key_toggles_twice [OF ok sel1 lk1 pk1 sel2 lk2 same pk2 pk3]
  have "m_locks ?s1 ! 0 \<noteq> 0 \<and> m_locks (snd (snd ?p2)) = [0, 0, 0] \<and>
        fst ?p1 = CapsLockOn \<and> fst ?p2 = CapsLockOff \<and> fst ?p3 = NoAction \<and>
        snd (snd ?p3) = ?s"
    by (simp add: v set_lock_def)
  then show ?thesis by (metis prod.collapse)
qed

text \<open>
  A CapsLock record flagged as a modifier returns no SetLock action at all; a
  CapsLock record flagged as a letter is not selected at the second press, and the
  lock stays on.
\<close>

theorem lock_key_counterexample:
  "selected (lookup overlap_handler 58) = Some 1 \<and>
   Key_CapsLock \<le> qtcode (overlap_keymap ! 1) \<and> qtcode (overlap_keymap ! 1) \<le> Key_ScrollLock \<and>
   fst (processKeycode overlap_handler 58 True False) = NoAction \<and>
   fst (processKeycode (snd (snd (processKeycode overlap_handler 58 True False))) 58 True False)
     = NoAction \<and>
   selected (lookup overlap_handler 59) = Some 3 \<and>
   Key_CapsLock \<le> qtcode (overlap_keymap ! 3) \<and> qtcode (overlap_keymap ! 3) \<le> Key_ScrollLock \<and>
   m_locks overlap_handler = [0, 0, 0] \<and>
   fst (processKeycode overlap_handler 59 True False) = CapsLockOn \<and>
   selected (lookup (snd (snd (processKeycode overlap_handler 59 True False))) 59) = Some 4 \<and>
   fst (processKeycode (snd (snd (processKeycode overlap_handler 59 True False))) 59 True False)
     = NoAction \<and>
   m_locks (snd (snd (processKeycode
     (snd (snd (processKeycode overlap_handler 59 True False))) 59 True False))) = [1, 0, 0]"
  by code_simp

subsection \<open>C10: The compose flag after a load\<close>



end
